theory Spec2Isabelle
  imports Complex_Main "HOL-Library.AList"
begin

section \<open>Data model\<close>

text \<open>
  Python exceptions raised by the library, as values. A function of the source that may
  raise returns \<open>exn + 'a\<close>, \<open>Inl\<close> carrying the exception.
\<close>

datatype exn =
    RuntimeError string
  | ValueError string
  | KeyError string
  | AttributeError string
  | TypeError string
  | RecursionError
  | InvalidStateError
  | UserException string
  | CancelledError
  | BaseException string

text \<open>
  \<^verbatim>\<open>except Exception\<close> catches the instances of \<^verbatim>\<open>Exception\<close>.
  \<^verbatim>\<open>asyncio.CancelledError\<close> and the other direct subclasses of \<^verbatim>\<open>BaseException\<close>
  (\<^verbatim>\<open>KeyboardInterrupt\<close>, \<^verbatim>\<open>SystemExit\<close>) are not among them.
\<close>

fun is_Exception :: "exn \<Rightarrow> bool" where
  "is_Exception CancelledError = False"
| "is_Exception (BaseException name) = False"
| "is_Exception e = True"

text \<open>
  Immutable Python values. \<open>UNHANDLED\<close> is the module-level sentinel
  \<^verbatim>\<open>UNHANDLED = sentinels.Sentinel('unhandled')\<close> of \<^verbatim>\<open>actor.py\<close>; it is an ordinary
  object, so it is one more value.
\<close>

datatype pyval =
    PyNone
  | PyBool bool
  | PyInt int
  | PyStr string
  | PyObj nat
  | UNHANDLED

text \<open>
  A message class (\<^verbatim>\<open>typing.Type[Message]\<close>): the class object's identity, its
  \<^verbatim>\<open>__name__\<close>, and whether \<^verbatim>\<open>issubclass(cls, Message)\<close> holds.
\<close>

record msg_cls =
  cls_id :: nat
  cls_name :: string
  is_message :: bool

text \<open>
  A handler function object: its qualified name, the names of its formal parameters
  (\<^verbatim>\<open>inspect.signature(func)\<close>) and whether it is a coroutine function.
\<close>

record handler =
  h_name :: string
  h_params :: "string list"
  h_coroutine :: bool

section \<open>Router (\<^verbatim>\<open>actor/router.py\<close>)\<close>

record router =
  handlers :: "(msg_cls \<times> handler) list"
  handled_messages_names :: "(string \<times> msg_cls) list"

definition Router_init :: router where
  "Router_init = \<lparr>handlers = [], handled_messages_names = []\<rparr>"

definition MESSAGE_HANDLER_SIGNATURE :: "string list" where
  "MESSAGE_HANDLER_SIGNATURE = [''self'', ''context'', ''message'']"

text \<open>
  \<^verbatim>\<open>Router.match\<close> looks the handler up by the exact class of the message,
  \<^verbatim>\<open>self._handlers.get(type(message))\<close>. The argument here is that class.
\<close>

definition match :: "router \<Rightarrow> msg_cls \<Rightarrow> handler option" where
  "match r c = map_of (handlers r) c"

text \<open>
  \<^verbatim>\<open>Router.add\<close>: four checks, each raising \<^verbatim>\<open>RuntimeError\<close>, then the two
  dictionary stores. The signature check compares two \<^verbatim>\<open>keys()\<close> views, which Python
  compares as sets.
\<close>

definition add :: "router \<Rightarrow> msg_cls \<Rightarrow> handler \<Rightarrow> exn + router" where
  "add r message_cls func =
     (if \<not> is_message message_cls then
        Inl (RuntimeError ''message class must inherit from Message'')
      else if set (h_params func) \<noteq> set MESSAGE_HANDLER_SIGNATURE then
        Inl (RuntimeError ''signature mismatch'')
      else if \<not> h_coroutine func then
        Inl (RuntimeError ''function must be async'')
      else if cls_name message_cls \<in> fst ` set (handled_messages_names r) then
        Inl (RuntimeError ''handler already exists'')
      else
        Inr (r\<lparr>handled_messages_names :=
                 AList.update (cls_name message_cls) message_cls (handled_messages_names r),
               handlers := AList.update message_cls func (handlers r)\<rparr>))"

section \<open>Actor metaclass (\<^verbatim>\<open>ActorMetaclass.__new__\<close>)\<close>

text \<open>
  The class namespace \<^verbatim>\<open>dct\<close> is the list of its values in definition order; each is a
  function together with its hidden \<^verbatim>\<open>_handle\<close> attribute, if \<^verbatim>\<open>register_handler\<close>
  put one. A base class is given by its \<^verbatim>\<open>_router\<close> attribute, if it has one. The new
  class is represented by the router the metaclass builds for it.
\<close>

fun add_methods :: "router \<Rightarrow> (handler \<times> msg_cls option) list \<Rightarrow> exn + router" where
  "add_methods r [] = Inr r"
| "add_methods r ((func, None) # ms) = add_methods r ms"
| "add_methods r ((func, Some c) # ms) =
     (case add r c func of Inl e \<Rightarrow> Inl e | Inr r' \<Rightarrow> add_methods r' ms)"

fun copy_base :: "router \<Rightarrow> (msg_cls \<times> handler) list \<Rightarrow> exn + router" where
  "copy_base r [] = Inr r"
| "copy_base r ((message_cls, h) # items) =
     (if message_cls \<in> fst ` set (handlers r) then copy_base r items
      else (case add r message_cls h of Inl e \<Rightarrow> Inl e | Inr r' \<Rightarrow> copy_base r' items))"

fun copy_bases :: "router \<Rightarrow> router option list \<Rightarrow> exn + router" where
  "copy_bases r [] = Inr r"
| "copy_bases r (None # bases) = copy_bases r bases"
| "copy_bases r (Some b # bases) =
     (case copy_base r (handlers b) of Inl e \<Rightarrow> Inl e | Inr r' \<Rightarrow> copy_bases r' bases)"

definition metaclass_new ::
  "(handler \<times> msg_cls option) list \<Rightarrow> router option list \<Rightarrow> exn + router" where
  "metaclass_new dct bases =
     (case add_methods Router_init dct of Inl e \<Rightarrow> Inl e | Inr r \<Rightarrow> copy_bases r bases)"

text \<open>
  The inheritance rule in the specification's words: the handler of the first base, in
  the order of the bases, whose router has the message type.
\<close>

fun inherited_handler :: "router option list \<Rightarrow> msg_cls \<Rightarrow> handler option" where
  "inherited_handler [] T = None"
| "inherited_handler (None # bases) T = inherited_handler bases T"
| "inherited_handler (Some b # bases) T =
     (case match b T of Some h \<Rightarrow> Some h | None \<Rightarrow> inherited_handler bases T)"

subsection \<open>Router facts\<close>

text \<open>Every registered class has its name in the name table.\<close>

definition router_inv :: "router \<Rightarrow> bool" where
  "router_inv r \<longleftrightarrow> (\<forall>c \<in> fst ` set (handlers r). cls_name c \<in> fst ` set (handled_messages_names r))"

lemma router_inv_init: "router_inv Router_init"
  by (simp add: router_inv_def Router_init_def)

lemma add_Inr:
  assumes "add r c f = Inr r'" and "router_inv r"
  shows "router_inv r'" and "map_of (handlers r) c = None"
    and "map_of (handlers r') = (map_of (handlers r))(c \<mapsto> f)"
proof -
  from assms(1) have fresh: "cls_name c \<notin> fst ` set (handled_messages_names r)"
    and r': "r' = r\<lparr>handled_messages_names :=
                 AList.update (cls_name c) c (handled_messages_names r),
               handlers := AList.update c f (handlers r)\<rparr>"
    by (auto simp: add_def split: if_splits)
  from fresh assms(2) have "c \<notin> fst ` set (handlers r)"
    by (auto simp: router_inv_def)
  then show "map_of (handlers r) c = None"
    by (simp add: map_of_eq_None_iff)
  show "map_of (handlers r') = (map_of (handlers r))(c \<mapsto> f)"
    by (simp add: r' update_conv')
  show "router_inv r'"
    using assms(2) by (auto simp: r' router_inv_def dom_update image_iff)
qed

lemma add_methods_bound:
  "add_methods r dct = Inr r' \<Longrightarrow> router_inv r \<Longrightarrow> map_of (handlers r) c = Some h \<Longrightarrow>
     (\<forall>f. (f, Some c) \<notin> set dct) \<and> map_of (handlers r') c = Some h"
proof (induction r dct rule: add_methods.induct)
  case (1 r)
  then show ?case by simp
next
  case (2 r func ms)
  then show ?case by simp
next
  case (3 r func d ms)
  from "3.prems"(1) obtain r1 where a: "add r d func = Inr r1"
    and rest: "add_methods r1 ms = Inr r'"
    by (auto split: sum.splits)
  note A = add_Inr[OF a "3.prems"(2)]
  from A(2) "3.prems"(3) have ne: "d \<noteq> c" by auto
  with A(3) "3.prems"(3) have "map_of (handlers r1) c = Some h" by simp
  from "3.IH"[OF a rest A(1) this] ne show ?case by simp
qed

lemma add_methods_Inr:
  "add_methods r dct = Inr r' \<Longrightarrow> router_inv r \<Longrightarrow>
     router_inv r' \<and>
     (\<forall>f. (f, Some T) \<in> set dct \<longrightarrow> map_of (handlers r') T = Some f) \<and>
     ((\<forall>f. (f, Some T) \<notin> set dct) \<longrightarrow> map_of (handlers r') T = map_of (handlers r) T)"
proof (induction r dct rule: add_methods.induct)
  case (1 r)
  then show ?case by simp
next
  case (2 r func ms)
  then show ?case by simp
next
  case (3 r func c ms)
  from "3.prems"(1) obtain r1 where a: "add r c func = Inr r1"
    and rest: "add_methods r1 ms = Inr r'"
    by (auto split: sum.splits)
  note A = add_Inr[OF a "3.prems"(2)]
  note IH = "3.IH"[OF a rest A(1)]
  show ?case
  proof (cases "T = c")
    case True
    from A(3) have "map_of (handlers r1) c = Some func" by simp
    from add_methods_bound[OF rest A(1) this] True show ?thesis
      using IH by auto
  next
    case False
    with A(3) have "map_of (handlers r1) T = map_of (handlers r) T" by simp
    with IH False show ?thesis by simp
  qed
qed

lemma copy_base_Inr:
  "copy_base r items = Inr r' \<Longrightarrow> router_inv r \<Longrightarrow>
     router_inv r' \<and>
     map_of (handlers r') T =
       (case map_of (handlers r) T of Some h \<Rightarrow> Some h | None \<Rightarrow> map_of items T)"
proof (induction r items rule: copy_base.induct)
  case (1 r)
  then show ?case by (simp split: option.splits)
next
  case (2 r c h items)
  show ?case
  proof (cases "c \<in> fst ` set (handlers r)")
    case True
    then have bound: "map_of (handlers r) c \<noteq> None"
      by (simp add: map_of_eq_None_iff)
    from True "2.prems" have "copy_base r items = Inr r'" by simp
    from "2.IH"(1)[OF True this "2.prems"(2)] bound show ?thesis
      by (auto split: option.splits)
  next
    case False
    with "2.prems"(1) obtain r1 where a: "add r c h = Inr r1"
      and rest: "copy_base r1 items = Inr r'"
      by (auto split: sum.splits)
    note A = add_Inr[OF a "2.prems"(2)]
    from "2.IH"(2)[OF False a rest A(1)] A(2) A(3) show ?thesis
      by (auto split: option.splits)
  qed
qed

lemma copy_bases_Inr:
  "copy_bases r bases = Inr r' \<Longrightarrow> router_inv r \<Longrightarrow>
     router_inv r' \<and>
     map_of (handlers r') T =
       (case map_of (handlers r) T of Some h \<Rightarrow> Some h | None \<Rightarrow> inherited_handler bases T)"
proof (induction r bases rule: copy_bases.induct)
  case (1 r)
  then show ?case by (simp split: option.splits)
next
  case (2 r bases)
  then show ?case by (simp split: option.splits)
next
  case (3 r b bases)
  from "3.prems"(1) obtain r1 where c: "copy_base r (handlers b) = Inr r1"
    and rest: "copy_bases r1 bases = Inr r'"
    by (auto split: sum.splits)
  from copy_base_Inr[OF c "3.prems"(2), of T] have inv1: "router_inv r1"
    and m1: "map_of (handlers r1) T =
       (case map_of (handlers r) T of Some h \<Rightarrow> Some h | None \<Rightarrow> map_of (handlers b) T)"
    by simp_all
  from "3.IH"[OF c rest inv1] m1 show ?case
    by (auto simp: match_def split: option.splits)
qed

section \<open>Handler inheritance\<close>

text \<open>
  C4. When the metaclass builds the class (no registration raises), the class's router
  maps a message type \<open>T\<close> to the handler the class itself declares for \<open>T\<close>, if it
  declares one, and otherwise to the handler inherited from the bases: the handler of
  the first base whose router has \<open>T\<close>, or none. The child overrides the parent.
\<close>

theorem metaclass_new_child_overrides_parent:
  assumes "metaclass_new dct bases = Inr C"
  shows "(\<forall>f. (f, Some T) \<in> set dct \<longrightarrow> match C T = Some f) \<and>
         ((\<forall>f. (f, Some T) \<notin> set dct) \<longrightarrow> match C T = inherited_handler bases T)"
proof -
  from assms obtain r where own: "add_methods Router_init dct = Inr r"
    and inh: "copy_bases r bases = Inr C"
    by (auto simp: metaclass_new_def split: sum.splits)
  from add_methods_Inr[OF own router_inv_init, of T] have inv: "router_inv r"
    and loc: "\<And>f. (f, Some T) \<in> set dct \<Longrightarrow> map_of (handlers r) T = Some f"
    and non: "(\<forall>f. (f, Some T) \<notin> set dct) \<Longrightarrow> map_of (handlers r) T = None"
    by (simp_all add: Router_init_def)
  from copy_bases_Inr[OF inh inv, of T] have C: "map_of (handlers C) T =
       (case map_of (handlers r) T of Some h \<Rightarrow> Some h | None \<Rightarrow> inherited_handler bases T)"
    by simp
  show ?thesis
  proof (intro conjI allI impI)
    fix f assume "(f, Some T) \<in> set dct"
    from loc[OF this] C show "match C T = Some f" by (simp add: match_def)
  next
    assume "\<forall>f. (f, Some T) \<notin> set dct"
    from non[OF this] C show "match C T = inherited_handler bases T" by (simp add: match_def)
  qed
qed

text \<open>
  The classes of \<^verbatim>\<open>actor/messages.py\<close> and the three handlers the base class
  \<^verbatim>\<open>Actor\<close> registers; \<^verbatim>\<open>Actor\<close>'s only base, \<^verbatim>\<open>Service\<close>, has no router. The subclass
  is the one of \<^verbatim>\<open>test_register_handler_overrides_parent_handler\<close>.
\<close>

definition ActletDoneMessage :: msg_cls where
  "ActletDoneMessage = \<lparr>cls_id = 1, cls_name = ''ActletDoneMessage'', is_message = True\<rparr>"

definition TimerDoneMessage :: msg_cls where
  "TimerDoneMessage = \<lparr>cls_id = 2, cls_name = ''TimerDoneMessage'', is_message = True\<rparr>"

definition ShutdownMessage :: msg_cls where
  "ShutdownMessage = \<lparr>cls_id = 3, cls_name = ''ShutdownMessage'', is_message = True\<rparr>"

definition handle_shutdown :: handler where
  "handle_shutdown = \<lparr>h_name = ''Actor.handle_shutdown'',
     h_params = [''self'', ''context'', ''message''], h_coroutine = True\<rparr>"

definition handle_actlet_done :: handler where
  "handle_actlet_done = \<lparr>h_name = ''Actor.handle_actlet_done'',
     h_params = [''self'', ''context'', ''message''], h_coroutine = True\<rparr>"

definition handle_timer_done :: handler where
  "handle_timer_done = \<lparr>h_name = ''Actor.handle_timer_done'',
     h_params = [''self'', ''context'', ''message''], h_coroutine = True\<rparr>"

definition Actor_dct :: "(handler \<times> msg_cls option) list" where
  "Actor_dct = [(handle_shutdown, Some ShutdownMessage),
                (handle_actlet_done, Some ActletDoneMessage),
                (handle_timer_done, Some TimerDoneMessage)]"

definition Actor_router :: router where
  "Actor_router =
     \<lparr>handlers = [(ShutdownMessage, handle_shutdown), (ActletDoneMessage, handle_actlet_done),
                   (TimerDoneMessage, handle_timer_done)],
      handled_messages_names = [(''ShutdownMessage'', ShutdownMessage),
                   (''ActletDoneMessage'', ActletDoneMessage),
                   (''TimerDoneMessage'', TimerDoneMessage)]\<rparr>"

definition new_shutdown_handler :: handler where
  "new_shutdown_handler = \<lparr>h_name = ''Actor.new_shutdown_handler'',
     h_params = [''self'', ''context'', ''message''], h_coroutine = True\<rparr>"

definition Override_router :: router where
  "Override_router =
     \<lparr>handlers = [(ShutdownMessage, new_shutdown_handler), (ActletDoneMessage, handle_actlet_done),
                   (TimerDoneMessage, handle_timer_done)],
      handled_messages_names = [(''ShutdownMessage'', ShutdownMessage),
                   (''ActletDoneMessage'', ActletDoneMessage),
                   (''TimerDoneMessage'', TimerDoneMessage)]\<rparr>"

lemmas example_classes =
  ActletDoneMessage_def TimerDoneMessage_def ShutdownMessage_def handle_shutdown_def
  handle_actlet_done_def handle_timer_done_def new_shutdown_handler_def

lemma Actor_router_built: "metaclass_new Actor_dct [None] = Inr Actor_router"
  by (simp add: metaclass_new_def Actor_dct_def Actor_router_def Router_init_def add_def
      MESSAGE_HANDLER_SIGNATURE_def example_classes)

lemma Override_router_built:
  "metaclass_new [(new_shutdown_handler, Some ShutdownMessage)] [Some Actor_router] =
     Inr Override_router"
  by (simp add: metaclass_new_def Actor_router_def Override_router_def Router_init_def add_def
      MESSAGE_HANDLER_SIGNATURE_def example_classes)

theorem metaclass_new_child_overrides_parent_witness:
  "metaclass_new [(new_shutdown_handler, Some ShutdownMessage)] [Some Actor_router] =
     Inr Override_router \<and>
   match Override_router ShutdownMessage = Some new_shutdown_handler \<and>
   match Override_router TimerDoneMessage = Some handle_timer_done"
proof -
  note ov = metaclass_new_child_overrides_parent[OF Override_router_built]
  from ov[of ShutdownMessage]
  have "match Override_router ShutdownMessage = Some new_shutdown_handler" by simp
  moreover from ov[of TimerDoneMessage]
  have "match Override_router TimerDoneMessage = Some handle_timer_done"
    by (simp add: match_def Actor_router_def example_classes)
  ultimately show ?thesis using Override_router_built by simp
qed

section \<open>Messages, envelopes and the object store\<close>

text \<open>
  A message may carry objects. They live in an object store: an address is an index into
  the store, and the object there has a kind and the list of the values it holds
  (elements, items, attributes), each an immutable value or a reference to an object.
  Aliasing between a sender's objects and a receiver's is then visible in the model.

  The kind says what \<^verbatim>\<open>copy.deepcopy\<close> does with the object: it copies lists,
  dictionaries and instances of ordinary classes (an instance holds a reference to its
  class among its values); it returns functions, classes and modules as they are; and it
  raises \<^verbatim>\<open>TypeError\<close> on objects that cannot be copied (locks, generators, futures).
\<close>

datatype val = Atom pyval | Ref nat

datatype kind = Copied | Shared | Uncopyable

type_synonym heap_object = "kind \<times> val list"

type_synonym store = "heap_object list"

type_synonym memo = "(nat \<times> nat) list"

record message =
  msg_type :: msg_cls
  msg_fields :: "val list"

record envelope =
  env_id :: string
  sender :: string
  receiver :: string
  message :: message
  reply_to :: "string option"

text \<open>
  \<^verbatim>\<open>copy.deepcopy\<close>, as CPython defines it. An immutable value is returned as it is.
  For an object, the memo is looked up by the object's identity; otherwise a shared object
  is returned as it is, an uncopyable one raises, and for the others a new empty object is
  allocated, entered into the memo, and filled with the copies of the values in order. The
  first argument is the recursion depth still available, and \<^verbatim>\<open>RecursionError\<close> is raised
  when it is used up. A reference always refers to an object of the store; for an address
  outside the store the model raises \<^verbatim>\<open>KeyError\<close>.
\<close>

fun deepcopy :: "nat \<Rightarrow> memo \<Rightarrow> store \<Rightarrow> val \<Rightarrow> exn + (memo \<times> store \<times> val)"
and deepcopy_list :: "nat \<Rightarrow> memo \<Rightarrow> store \<Rightarrow> nat \<Rightarrow> val list \<Rightarrow> exn + (memo \<times> store)" where
  "deepcopy d memo st (Atom v) = Inr (memo, st, Atom v)"
| "deepcopy 0 memo st (Ref x) = Inl RecursionError"
| "deepcopy (Suc d) memo st (Ref x) =
     (case map_of memo x of
        Some y \<Rightarrow> Inr (memo, st, Ref y)
      | None \<Rightarrow>
          if length st \<le> x then Inl (KeyError ''no such object'')
          else (case fst (st ! x) of
                  Shared \<Rightarrow> Inr (memo, st, Ref x)
                | Uncopyable \<Rightarrow> Inl (TypeError ''cannot pickle object'')
                | Copied \<Rightarrow>
                    (let y = length st in
                     case deepcopy_list d ((x, y) # memo) (st @ [(Copied, [])]) y (snd (st ! x)) of
                       Inl e \<Rightarrow> Inl e
                     | Inr (memo', st') \<Rightarrow> Inr (memo', st', Ref y))))"
| "deepcopy_list d memo st y [] = Inr (memo, st)"
| "deepcopy_list d memo st y (a # as) =
     (case deepcopy d memo st a of
        Inl e \<Rightarrow> Inl e
      | Inr (memo', st', a') \<Rightarrow>
          deepcopy_list d memo' (st'[y := (fst (st' ! y), snd (st' ! y) @ [a'])]) y as)"

text \<open>The field values of a record are copied one after the other, with one memo.\<close>

fun deepcopy_vals :: "nat \<Rightarrow> memo \<Rightarrow> store \<Rightarrow> val list \<Rightarrow> exn + (memo \<times> store \<times> val list)" where
  "deepcopy_vals d memo st [] = Inr (memo, st, [])"
| "deepcopy_vals d memo st (v # vs) =
     (case deepcopy d memo st v of
        Inl e \<Rightarrow> Inl e
      | Inr (memo', st', v') \<Rightarrow>
          (case deepcopy_vals d memo' st' vs of
             Inl e \<Rightarrow> Inl e
           | Inr (memo'', st'', vs') \<Rightarrow> Inr (memo'', st'', v' # vs')))"

text \<open>
  An envelope and its message are frozen dataclasses with string fields: copying them
  yields equal records, and the message's field values are deep-copied.
\<close>

definition deepcopy_envelope :: "nat \<Rightarrow> store \<Rightarrow> envelope \<Rightarrow> exn + (store \<times> envelope)" where
  "deepcopy_envelope d st env =
     (case deepcopy_vals d [] st (msg_fields (message env)) of
        Inl e \<Rightarrow> Inl e
      | Inr (memo', st', fs) \<Rightarrow> Inr (st', env\<lparr>message := (message env)\<lparr>msg_fields := fs\<rparr>\<rparr>))"

text \<open>
  What code holding a value can read through it: the value unfolded through the store,
  down to a given depth.
\<close>

datatype tree = Leaf pyval | Node "tree list" | Cut | Dangling

fun observe :: "nat \<Rightarrow> store \<Rightarrow> val \<Rightarrow> tree" where
  "observe k st (Atom v) = Leaf v"
| "observe 0 st (Ref x) = Cut"
| "observe (Suc k) st (Ref x) =
     (if x < length st then Node (map (observe k st) (snd (st ! x))) else Dangling)"

definition handler_view :: "store \<Rightarrow> envelope \<Rightarrow> nat \<Rightarrow> tree list" where
  "handler_view st env = (\<lambda>k. map (observe k st) (msg_fields (message env)))"

section \<open>Actor (\<^verbatim>\<open>actor/actor.py\<close>)\<close>

text \<open>
  The future of an \<^verbatim>\<open>EnvelopeTracker\<close>, which is pending, done with a result or an
  exception, or cancelled. A tracker is named by the index of its future.
\<close>

datatype fut = Pending | Result pyval | Exception exn | Cancelled

text \<open>
  Where the \<^verbatim>\<open>serve\<close> coroutine stands: not yet run, in the dispatch loop, or returned.
\<close>

datatype pc = Created | Serving | Exited

text \<open>
  The calls that set an event or resolve a future, in the order they are made. The
  history is not part of the program; it is kept to state how often and in which order
  these calls happen.
\<close>

datatype call =
    InitializeEventSet
  | InitializeExceptionAssigned exn
  | ShutdownEventSet
  | SetResult nat pyval
  | SetException nat exn

text \<open>
  The actor, with the two tasks of the loop's \<^verbatim>\<open>MultiWaiter\<close>: \<open>stop_waiter_done\<close> says
  that the task awaiting \<^verbatim>\<open>wait_stop()\<close> has completed, and \<open>taken\<close> is the pair the
  task awaiting \<^verbatim>\<open>Queue.get()\<close> has removed from the queue and holds as its result.
\<close>

record 'u actor =
  actor_id :: string
  identity :: string
  store :: store
  queue :: "(envelope \<times> nat) list"
  taken :: "(envelope \<times> nat) option"
  futs :: "nat \<Rightarrow> fut"
  next_tracker :: nat
  initialize_event :: bool
  initialize_exception :: "exn option"
  shutdown_event :: bool
  stop_event :: bool
  stop_waiter_done :: bool
  pc :: pc
  calls :: "call list"
  user :: 'u

definition Actor_init :: "string \<Rightarrow> string \<Rightarrow> store \<Rightarrow> 'u \<Rightarrow> 'u actor" where
  "Actor_init context_identity aid st u =
     \<lparr>actor_id = aid, identity = context_identity, store = st, queue = [], taken = None,
      futs = (\<lambda>t. Pending), next_tracker = 0,
      initialize_event = False, initialize_exception = None,
      shutdown_event = False, stop_event = False, stop_waiter_done = False,
      pc = Created, calls = [], user = u\<rparr>"

text \<open>
  \<^verbatim>\<open>Actor.post\<close>: deep-copy the envelope, create the tracker, enqueue the pair, return the
  tracker. The queue is unbounded, so only the copy can raise.
\<close>

definition post :: "nat \<Rightarrow> 'u actor \<Rightarrow> envelope \<Rightarrow> exn + (nat \<times> 'u actor)" where
  "post limit a env =
     (case deepcopy_envelope limit (store a) env of
        Inl e \<Rightarrow> Inl e
      | Inr (st', env') \<Rightarrow>
          (let tracker = next_tracker a in
           Inr (tracker,
                a\<lparr>store := st',
                  futs := (futs a)(tracker := Pending),
                  next_tracker := Suc tracker,
                  queue := queue a @ [(env', tracker)]\<rparr>)))"

text \<open>\<^verbatim>\<open>uid\<close> is the string \<^verbatim>\<open>str(uuid.uuid4())\<close> returned.\<close>

definition tell_me :: "nat \<Rightarrow> 'u actor \<Rightarrow> string \<Rightarrow> message \<Rightarrow> exn + (nat \<times> 'u actor)" where
  "tell_me limit a uid m =
     post limit a \<lparr>env_id = uid, sender = identity a, receiver = identity a,
                   message = m, reply_to = None\<rparr>"

text \<open>
  \<^verbatim>\<open>ActorProxy.tell\<close>; the proxy is its \<^verbatim>\<open>_actor_id\<close> and the actor it refers to.
\<close>

definition tell ::
  "nat \<Rightarrow> string \<Rightarrow> 'u actor \<Rightarrow> string \<Rightarrow> string \<Rightarrow> message \<Rightarrow> string option \<Rightarrow> exn + (nat \<times> 'u actor)" where
  "tell limit proxy_actor_id a uid context_identity m reply =
     post limit a \<lparr>env_id = uid, sender = context_identity, receiver = proxy_actor_id,
                   message = m, reply_to = reply\<rparr>"

text \<open>
  \<^verbatim>\<open>Future.set_result\<close> and \<^verbatim>\<open>Future.set_exception\<close> raise \<^verbatim>\<open>InvalidStateError\<close> on a
  future that is not pending.
\<close>

definition set_result :: "'u actor \<Rightarrow> nat \<Rightarrow> pyval \<Rightarrow> exn + 'u actor" where
  "set_result a t v =
     (if futs a t = Pending
      then Inr (a\<lparr>futs := (futs a)(t := Result v), calls := calls a @ [SetResult t v]\<rparr>)
      else Inl InvalidStateError)"

definition set_exception :: "'u actor \<Rightarrow> nat \<Rightarrow> exn \<Rightarrow> exn + 'u actor" where
  "set_exception a t e =
     (if futs a t = Pending
      then Inr (a\<lparr>futs := (futs a)(t := Exception e), calls := calls a @ [SetException t e]\<rparr>)
      else Inl InvalidStateError)"

text \<open>
  What running a handler does: it returns a value or raises, it may have stopped the
  service, and it leaves the actor's own attributes in a new state. What it raises may be
  any exception, a cancellation among them. A handler reads the envelope and, through the
  store, the field values of the message. What a handler posts (\<^verbatim>\<open>tell_me\<close>, \<^verbatim>\<open>tell\<close>)
  are posts like any other, events of the run.
\<close>

record 'u effect =
  outcome :: "exn + pyval"
  stops :: bool
  ustate :: 'u

type_synonym 'u body = "handler \<Rightarrow> 'u \<Rightarrow> envelope \<Rightarrow> (nat \<Rightarrow> tree list) \<Rightarrow> 'u effect"

datatype 'u iteration =
    Blocked
  | Break "'u actor"
  | Continue "'u actor"
  | Raise exn "'u actor"

text \<open>
  The \<^verbatim>\<open>try\<close> statement of the loop for a tracker and what the handler did:
  \<^verbatim>\<open>set_result\<close> is inside the \<^verbatim>\<open>try\<close>, so its \<^verbatim>\<open>InvalidStateError\<close> is caught too,
  and \<^verbatim>\<open>except Exception\<close> lets every other exception leave the loop.
\<close>

definition resolve :: "'u actor \<Rightarrow> nat \<Rightarrow> exn + pyval \<Rightarrow> 'u iteration" where
  "resolve a tracker out =
     (case (case out of
              Inl e \<Rightarrow> Inl e
            | Inr result \<Rightarrow>
                (case set_result a tracker result of Inl e \<Rightarrow> Inl e | Inr a' \<Rightarrow> Inr a')) of
        Inr a' \<Rightarrow> Continue a'
      | Inl e \<Rightarrow>
          if is_Exception e then
            (case set_exception a tracker e of
               Inr a' \<Rightarrow> Continue a'
             | Inl e' \<Rightarrow> Raise e' a)
          else Raise e a)"

text \<open>
  The body of the loop of \<^verbatim>\<open>Actor.serve\<close> from the router lookup on, for the pair taken
  from the queue. Without a handler, \<^verbatim>\<open>set_result(UNHANDLED)\<close> is outside any \<^verbatim>\<open>try\<close>.
\<close>

definition dispatch :: "'u body \<Rightarrow> router \<Rightarrow> 'u actor \<Rightarrow> envelope \<Rightarrow> nat \<Rightarrow> 'u iteration" where
  "dispatch body R a env tracker =
     (case match R (msg_type (message env)) of
        None \<Rightarrow>
          (case set_result a tracker UNHANDLED of
             Inl e \<Rightarrow> Raise e a
           | Inr a' \<Rightarrow> Continue a')
      | Some h \<Rightarrow>
          (let eff = body h (user a) env (handler_view (store a) env);
               a1 = a\<lparr>user := ustate eff, stop_event := (stop_event a \<or> stops eff)\<rparr>
           in resolve a1 tracker (outcome eff)))"

text \<open>
  One pass of \<^verbatim>\<open>while True\<close>, from the return of \<^verbatim>\<open>wait_first\<close> on. \<^verbatim>\<open>wait_first\<close>
  returns when one of the two tasks has completed, and does not return before
  (\<open>Blocked\<close>). When the stop task has completed the loop breaks, and a pair the other
  task holds is dropped. Otherwise that pair is dispatched; the task is then started
  again by the next \<^verbatim>\<open>wait_first\<close>.
\<close>

definition serve_iteration :: "'u body \<Rightarrow> router \<Rightarrow> 'u actor \<Rightarrow> 'u iteration" where
  "serve_iteration body R a =
     (if stop_waiter_done a then Break a
      else (case taken a of
              None \<Rightarrow> Blocked
            | Some (env, tracker) \<Rightarrow> dispatch body R (a\<lparr>taken := None\<rparr>) env tracker))"

text \<open>The \<^verbatim>\<open>finally\<close> clause of \<^verbatim>\<open>serve\<close>, up to the call of \<^verbatim>\<open>Core.remove_actor\<close>.\<close>

definition serve_finally :: "'u actor \<Rightarrow> 'u actor" where
  "serve_finally a = a\<lparr>shutdown_event := True, calls := calls a @ [ShutdownEventSet], pc := Exited\<rparr>"

text \<open>
  The inner \<^verbatim>\<open>try\<close> of \<^verbatim>\<open>serve\<close>. The user's \<^verbatim>\<open>initialize\<close> returns the exception it
  raised, if any, and the new state of the actor's own attributes. Only an instance of
  \<^verbatim>\<open>Exception\<close> reaches the \<^verbatim>\<open>except\<close> clause; any other exception leaves through the
  \<^verbatim>\<open>finally\<close> clause with the event not set.
\<close>

definition serve_initialize :: "('u \<Rightarrow> exn option \<times> 'u) \<Rightarrow> 'u actor \<Rightarrow> 'u actor" where
  "serve_initialize initialize a =
     (case initialize (user a) of
        (None, u) \<Rightarrow>
          a\<lparr>user := u, initialize_event := True, calls := calls a @ [InitializeEventSet],
            pc := Serving\<rparr>
      | (Some e, u) \<Rightarrow>
          if is_Exception e then
            (let a1 = a\<lparr>user := u, initialize_event := True,
                        calls := calls a @ [InitializeEventSet]\<rparr>;
                 a2 = a1\<lparr>initialize_exception := Some e,
                         calls := calls a1 @ [InitializeExceptionAssigned e]\<rparr>
             in serve_finally a2)
          else serve_finally (a\<lparr>user := u\<rparr>))"

text \<open>
  The \<^verbatim>\<open>serve\<close> coroutine advanced by one step: the initialisation, or one pass of the
  loop from the return of \<^verbatim>\<open>wait_first\<close>. Nothing else runs inside a step; what other
  coroutines and the two tasks do between two steps, or while a handler is suspended, are
  the other events below.
\<close>

definition serve_step :: "'u body \<Rightarrow> router \<Rightarrow> ('u \<Rightarrow> exn option \<times> 'u) \<Rightarrow> 'u actor \<Rightarrow> 'u actor" where
  "serve_step body R initialize a =
     (case pc a of
        Created \<Rightarrow> serve_initialize initialize a
      | Serving \<Rightarrow>
          (case serve_iteration body R a of
             Blocked \<Rightarrow> a
           | Continue a' \<Rightarrow> a'
           | Break a' \<Rightarrow> serve_finally a'
           | Raise e a' \<Rightarrow> serve_finally a')
      | Exited \<Rightarrow> a)"

text \<open>
  The task awaiting \<^verbatim>\<open>Queue.get()\<close> runs: while the loop is serving and the task holds
  no result, it removes the first pair of the queue.
\<close>

definition queue_get :: "'u actor \<Rightarrow> 'u actor" where
  "queue_get a =
     (if pc a = Serving \<and> taken a = None then
        (case queue a of [] \<Rightarrow> a | p # q \<Rightarrow> a\<lparr>queue := q, taken := Some p\<rparr>)
      else a)"

text \<open>
  The task awaiting \<^verbatim>\<open>wait_stop()\<close> runs: while the loop is serving, it completes when
  the stop event is set.
\<close>

definition wait_stop :: "'u actor \<Rightarrow> 'u actor" where
  "wait_stop a = (if pc a = Serving \<and> stop_event a then a\<lparr>stop_waiter_done := True\<rparr> else a)"

text \<open>
  A task awaiting a tracker is cancelled: \<^verbatim>\<open>Future.cancel\<close> cancels the future if it is
  pending.
\<close>

definition cancel_tracker :: "'u actor \<Rightarrow> nat \<Rightarrow> 'u actor" where
  "cancel_tracker a t =
     (if t < next_tracker a \<and> futs a t = Pending then a\<lparr>futs := (futs a)(t := Cancelled)\<rparr>
      else a)"

text \<open>
  What can happen to an actor: an envelope is posted to it, its service is stopped, a
  tracker is cancelled, some code writes the values of an object of the store or allocates
  an object, one of the two tasks runs, or its \<^verbatim>\<open>serve\<close> coroutine takes a step.
\<close>

datatype event =
    Post envelope
  | Stop
  | CancelTracker nat
  | Mutate nat "val list"
  | Alloc heap_object
  | QueueGet
  | WaitStop
  | Run

fun apply_event ::
  "nat \<Rightarrow> 'u body \<Rightarrow> router \<Rightarrow> ('u \<Rightarrow> exn option \<times> 'u) \<Rightarrow> 'u actor \<Rightarrow> event \<Rightarrow> 'u actor" where
  "apply_event limit body R initialize a (Post env) =
     (case post limit a env of Inl e \<Rightarrow> a | Inr (tracker, a') \<Rightarrow> a')"
| "apply_event limit body R initialize a Stop = a\<lparr>stop_event := True\<rparr>"
| "apply_event limit body R initialize a (CancelTracker t) = cancel_tracker a t"
| "apply_event limit body R initialize a (Mutate x vs) =
     a\<lparr>store := (store a)[x := (fst (store a ! x), vs)]\<rparr>"
| "apply_event limit body R initialize a (Alloc ob) = a\<lparr>store := store a @ [ob]\<rparr>"
| "apply_event limit body R initialize a QueueGet = queue_get a"
| "apply_event limit body R initialize a WaitStop = wait_stop a"
| "apply_event limit body R initialize a Run = serve_step body R initialize a"

definition run ::
  "nat \<Rightarrow> 'u body \<Rightarrow> router \<Rightarrow> ('u \<Rightarrow> exn option \<times> 'u) \<Rightarrow> 'u actor \<Rightarrow> event list \<Rightarrow> 'u actor" where
  "run limit body R initialize a es = foldl (apply_event limit body R initialize) a es"

text \<open>
  \<^verbatim>\<open>wait_until_initialized\<close>: \<open>None\<close> while the event is not set (the caller stays
  suspended), then the stashed exception is raised if there is one.
\<close>

definition wait_until_initialized :: "'u actor \<Rightarrow> (exn + unit) option" where
  "wait_until_initialized a =
     (if \<not> initialize_event a then None
      else (case initialize_exception a of Some e \<Rightarrow> Some (Inl e) | None \<Rightarrow> Some (Inr ())))"

definition is_shutdown :: "'u actor \<Rightarrow> bool" where
  "is_shutdown a = shutdown_event a"

section \<open>Core (\<^verbatim>\<open>core.py\<close>)\<close>

text \<open>
  The registry \<^verbatim>\<open>_actors\<close> maps a full identity to the actor, and \<^verbatim>\<open>_running\<close> is the
  flag \<^verbatim>\<open>shutdown\<close> clears. The registry refers to the actors themselves, so an entry
  always shows the actor's current state.
\<close>

record 'u core =
  actors :: "string \<rightharpoonup> 'u actor"
  running :: bool

definition Core_init :: "'u core" where
  "Core_init = \<lparr>actors = Map.empty, running = True\<rparr>"

definition assert_running :: "'u core \<Rightarrow> string \<Rightarrow> exn + unit" where
  "assert_running c msg = (if \<not> running c then Inl (RuntimeError msg) else Inr ())"

definition remove_actor :: "'u core \<Rightarrow> string \<Rightarrow> exn + 'u core" where
  "remove_actor c aid =
     (case assert_running c ''Core is not running'' of
        Inl e \<Rightarrow> Inl e
      | Inr u \<Rightarrow>
          (case actors c aid of
             None \<Rightarrow> Inr c
           | Some actor \<Rightarrow>
               if \<not> is_shutdown actor then Inl (ValueError ''Actor {actor_id} is not shut down'')
               else Inr (c\<lparr>actors := (actors c)(aid := None)\<rparr>)))"

text \<open>
  The first statement of \<^verbatim>\<open>Core.shutdown\<close>, the block under the lock: it clears
  \<^verbatim>\<open>_running\<close>. Nothing sets the flag again. What \<^verbatim>\<open>shutdown\<close> does after it (a proxy
  for every registered identity, a \<^verbatim>\<open>ShutdownMessage\<close> told through each, the wait for
  the actors) comes after the flag is cleared, and the \<^verbatim>\<open>serve\<close> coroutines of the actors
  told return while or after it waits.
\<close>

definition shutdown_locked :: "'u core \<Rightarrow> 'u core" where
  "shutdown_locked c = c\<lparr>running := False\<rparr>"

text \<open>
  The \<^verbatim>\<open>finally\<close> clause of \<^verbatim>\<open>Actor.serve\<close> for the actor registered under \<open>aid\<close>:
  it sets the shutdown event and calls \<^verbatim>\<open>remove_actor\<close>, whose exception, if any,
  leaves \<^verbatim>\<open>serve\<close>.
\<close>

definition serve_exit :: "'u core \<Rightarrow> string \<Rightarrow> exn option \<times> 'u core" where
  "serve_exit c aid =
     (let c1 = c\<lparr>actors := (actors c)(aid := map_option serve_finally (actors c aid))\<rparr>
      in case remove_actor c1 aid of
           Inl e \<Rightarrow> (Some e, c1)
         | Inr c2 \<Rightarrow> (None, c2))"

lemma shutdown_locked_not_running: "\<not> running (shutdown_locked c)"
  by (simp add: shutdown_locked_def)

text \<open>
  C7, as the code has it. While the Core is running, \<^verbatim>\<open>remove_actor\<close> raises
  \<^verbatim>\<open>ValueError\<close> for a registered actor whose shutdown event is not set, and returns
  without error and without change for an identity that is not registered.
\<close>

theorem remove_actor_running:
  assumes "running c"
  shows "(actors c aid = None \<longrightarrow> remove_actor c aid = Inr c) \<and>
         (\<forall>a. actors c aid = Some a \<and> \<not> is_shutdown a \<longrightarrow>
              remove_actor c aid = Inl (ValueError ''Actor {actor_id} is not shut down''))"
  using assms by (auto simp: remove_actor_def assert_running_def)

definition live_actor :: "unit actor" where
  "live_actor = Actor_init ''/'' ''/dummy'' [] ()"

definition one_actor_core :: "unit core" where
  "one_actor_core = \<lparr>actors = [''/dummy'' \<mapsto> live_actor], running = True\<rparr>"

theorem remove_actor_running_witness:
  "running one_actor_core \<and>
   actors one_actor_core ''no-such-actor'' = None \<and>
   remove_actor one_actor_core ''no-such-actor'' = Inr one_actor_core \<and>
   actors one_actor_core ''/dummy'' = Some live_actor \<and> \<not> is_shutdown live_actor \<and>
   remove_actor one_actor_core ''/dummy'' = Inl (ValueError ''Actor {actor_id} is not shut down'')"
proof -
  have r: "running one_actor_core" by (simp add: one_actor_core_def)
  have n: "actors one_actor_core ''no-such-actor'' = None" by (simp add: one_actor_core_def)
  have l: "actors one_actor_core ''/dummy'' = Some live_actor \<and> \<not> is_shutdown live_actor"
    by (simp add: one_actor_core_def live_actor_def Actor_init_def is_shutdown_def)
  from remove_actor_running[OF r, of "''no-such-actor''"] n
  have "remove_actor one_actor_core ''no-such-actor'' = Inr one_actor_core" by simp
  moreover from remove_actor_running[OF r, of "''/dummy''"] l
  have "remove_actor one_actor_core ''/dummy'' = Inl (ValueError ''Actor {actor_id} is not shut down'')"
    by blast
  ultimately show ?thesis using r n l by simp
qed

text \<open>
  C7 as the claim states it fails once the Core has been shut down: the identity is
  absent from the registry, and the call raises \<^verbatim>\<open>RuntimeError\<close>.
\<close>

definition stopped_core :: "unit core" where
  "stopped_core = \<lparr>actors = Map.empty, running = False\<rparr>"

theorem remove_actor_absent_counterexample:
  "actors stopped_core ''no-such-actor'' = None \<and>
   remove_actor stopped_core ''no-such-actor'' = Inl (RuntimeError ''Core is not running'')"
  by (simp add: stopped_core_def remove_actor_def assert_running_def)

text \<open>
  C9. \<^verbatim>\<open>remove_actor\<close> checks that the Core is running before anything else: on a Core
  that is not running it raises \<^verbatim>\<open>RuntimeError\<close> for every identity, and an actor whose
  \<^verbatim>\<open>serve\<close> returns then stays in the registry with its shutdown event set.
\<close>

theorem remove_actor_not_running:
  assumes "\<not> running c"
  shows "remove_actor c aid = Inl (RuntimeError ''Core is not running'') \<and>
         (\<forall>a. actors c aid = Some a \<longrightarrow>
            (\<exists>c'. serve_exit c aid = (Some (RuntimeError ''Core is not running''), c') \<and>
                  actors c' aid = Some (serve_finally a) \<and> is_shutdown (serve_finally a)))"
  using assms
  by (auto simp: remove_actor_def assert_running_def serve_exit_def Let_def is_shutdown_def
      serve_finally_def)

theorem remove_actor_not_running_witness:
  "\<not> running (shutdown_locked one_actor_core) \<and>
   remove_actor (shutdown_locked one_actor_core) ''/dummy'' =
     Inl (RuntimeError ''Core is not running'') \<and>
   actors (shutdown_locked one_actor_core) ''/dummy'' = Some live_actor \<and>
   (\<exists>c'. serve_exit (shutdown_locked one_actor_core) ''/dummy'' =
        (Some (RuntimeError ''Core is not running''), c') \<and>
      actors c' ''/dummy'' = Some (serve_finally live_actor) \<and>
      is_shutdown (serve_finally live_actor))"
proof -
  let ?c = "shutdown_locked one_actor_core"
  have nr: "\<not> running ?c" by (rule shutdown_locked_not_running)
  have a: "actors ?c ''/dummy'' = Some live_actor"
    by (simp add: shutdown_locked_def one_actor_core_def)
  from remove_actor_not_running[OF nr, of "''/dummy''"] a nr show ?thesis by blast
qed

section \<open>Runs of an actor\<close>

lemma run_snoc:
  "run limit body R initialize a (es @ [ev]) =
     apply_event limit body R initialize (run limit body R initialize a es) ev"
  by (simp add: run_def)

lemma run_Nil: "run limit body R initialize a [] = a"
  by (simp add: run_def)

lemma run_append:
  "run limit body R initialize a (es @ es') =
     run limit body R initialize (run limit body R initialize a es) es'"
  by (simp add: run_def)

text \<open>What a call of post changes.\<close>

lemma post_Inr:
  assumes "post limit a env = Inr (t, a')"
  shows "t = next_tracker a" and "next_tracker a' = Suc (next_tracker a)"
    and "futs a' = (futs a)(t := Pending)"
    and "\<exists>env'. queue a' = queue a @ [(env', t)]"
    and "calls a' = calls a" and "pc a' = pc a" and "user a' = user a"
    and "initialize_event a' = initialize_event a"
    and "initialize_exception a' = initialize_exception a"
    and "stop_event a' = stop_event a" and "shutdown_event a' = shutdown_event a"
    and "taken a' = taken a" and "stop_waiter_done a' = stop_waiter_done a"
  using assms by (auto simp: post_def Let_def split: sum.splits prod.splits)

text \<open>What a dispatch leaves as it is, and how a pass of the loop ends.\<close>

lemma resolve_frame:
  assumes "resolve a t out = Continue a' \<or> resolve a t out = Raise e a'"
  shows "pc a' = pc a" and "initialize_event a' = initialize_event a"
    and "initialize_exception a' = initialize_exception a"
    and "queue a' = queue a" and "taken a' = taken a" and "next_tracker a' = next_tracker a"
    and "store a' = store a" and "stop_waiter_done a' = stop_waiter_done a"
    and "user a' = user a" and "stop_event a' = stop_event a"
  using assms
  by (auto simp: resolve_def set_result_def set_exception_def split: sum.splits if_splits)

lemma resolve_not_Break [simp]: "resolve a t out \<noteq> Break a'"
  by (auto simp: resolve_def set_result_def set_exception_def split: sum.splits if_splits)

lemma resolve_not_Blocked [simp]: "resolve a t out \<noteq> Blocked"
  by (auto simp: resolve_def set_result_def set_exception_def split: sum.splits if_splits)

lemma dispatch_frame_all:
  assumes "dispatch body R a env t = Continue a' \<or> dispatch body R a env t = Raise e a'"
  shows "pc a' = pc a \<and> initialize_event a' = initialize_event a \<and>
         initialize_exception a' = initialize_exception a \<and>
         queue a' = queue a \<and> taken a' = taken a \<and> next_tracker a' = next_tracker a \<and>
         store a' = store a \<and> stop_waiter_done a' = stop_waiter_done a"
proof (cases "match R (msg_type (message env))")
  case None
  with assms have "a' = a \<or>
      a' = a\<lparr>futs := (futs a)(t := Result UNHANDLED), calls := calls a @ [SetResult t UNHANDLED]\<rparr>"
    by (auto simp: dispatch_def set_result_def split: if_splits)
  then show ?thesis by auto
next
  case (Some h)
  define eff where "eff = body h (user a) env (handler_view (store a) env)"
  define a1 where "a1 = a\<lparr>user := ustate eff, stop_event := (stop_event a \<or> stops eff)\<rparr>"
  from assms Some
  have r: "resolve a1 t (outcome eff) = Continue a' \<or> resolve a1 t (outcome eff) = Raise e a'"
    by (simp add: dispatch_def Let_def eff_def a1_def)
  note F = resolve_frame[OF r]
  from F show ?thesis by (simp add: a1_def)
qed

lemma dispatch_frame:
  assumes "dispatch body R a env t = Continue a' \<or> dispatch body R a env t = Raise e a'"
  shows "pc a' = pc a" and "initialize_event a' = initialize_event a"
    and "initialize_exception a' = initialize_exception a"
    and "queue a' = queue a" and "taken a' = taken a" and "next_tracker a' = next_tracker a"
    and "store a' = store a" and "stop_waiter_done a' = stop_waiter_done a"
  using dispatch_frame_all[OF assms] by simp_all

lemma dispatch_not_Break [simp]: "dispatch body R a env t \<noteq> Break a'"
  by (auto simp: dispatch_def Let_def split: option.splits sum.splits)

lemma dispatch_not_Blocked [simp]: "dispatch body R a env t \<noteq> Blocked"
  by (auto simp: dispatch_def Let_def split: option.splits sum.splits)

lemma serve_iteration_Break:
  "serve_iteration body R a = Break a' \<Longrightarrow> a' = a \<and> stop_waiter_done a"
  by (auto simp: serve_iteration_def split: if_splits option.splits)

lemma serve_iteration_Continue:
  "serve_iteration body R a = Continue a' \<Longrightarrow>
     \<exists>env t. \<not> stop_waiter_done a \<and> taken a = Some (env, t) \<and>
       dispatch body R (a\<lparr>taken := None\<rparr>) env t = Continue a'"
  by (auto simp: serve_iteration_def split: if_splits option.splits)

lemma serve_iteration_Raise:
  "serve_iteration body R a = Raise e a' \<Longrightarrow>
     \<exists>env t. \<not> stop_waiter_done a \<and> taken a = Some (env, t) \<and>
       dispatch body R (a\<lparr>taken := None\<rparr>) env t = Raise e a'"
  by (auto simp: serve_iteration_def split: if_splits option.splits)

text \<open>
  Only a step of \<^verbatim>\<open>serve\<close> moves it, and never back to where it has not run: it has run
  exactly when the run holds a step.
\<close>

lemma pc_serve_step: "pc (serve_step body R initialize a) \<noteq> Created"
proof (cases "pc a")
  case Created
  then show ?thesis
    by (cases "initialize (user a)")
       (auto simp: serve_step_def serve_initialize_def serve_finally_def Let_def split: option.splits)
next
  case Exited
  then show ?thesis by (simp add: serve_step_def)
next
  case Serving
  show ?thesis
  proof (cases "serve_iteration body R a")
    case Blocked
    with Serving show ?thesis by (simp add: serve_step_def)
  next
    case (Break a')
    with Serving show ?thesis by (simp add: serve_step_def serve_finally_def)
  next
    case (Continue a')
    from serve_iteration_Continue[OF Continue] obtain env t where
      "dispatch body R (a\<lparr>taken := None\<rparr>) env t = Continue a'" by blast
    from dispatch_frame(1)[of body R "a\<lparr>taken := None\<rparr>" env t a'] this
    have "pc a' = pc a" by simp
    with Continue Serving show ?thesis by (simp add: serve_step_def)
  next
    case (Raise e a')
    with Serving show ?thesis by (simp add: serve_step_def serve_finally_def)
  qed
qed

lemma pc_apply_event:
  assumes "ev \<noteq> Run"
  shows "pc (apply_event limit body R initialize a ev) = pc a"
proof (cases ev)
  case (Post env)
  show ?thesis
  proof (cases "post limit a env")
    case (Inl e)
    with Post show ?thesis by simp
  next
    case (Inr p)
    obtain t a' where p: "p = (t, a')" by (cases p)
    from post_Inr(6)[OF Inr[unfolded p]] Post Inr p show ?thesis by simp
  qed
next
  case QueueGet
  then show ?thesis by (simp add: queue_get_def split: list.splits)
qed (use assms in \<open>simp_all add: wait_stop_def cancel_tracker_def\<close>)

lemma pc_run_Created:
  "pc a = Created \<Longrightarrow> (pc (run limit body R initialize a es) = Created \<longleftrightarrow> Run \<notin> set es)"
proof (induction es rule: rev_induct)
  case Nil
  then show ?case by (simp add: run_Nil)
next
  case (snoc ev es)
  show ?case
  proof (cases "ev = Run")
    case True
    then show ?thesis by (simp add: run_snoc pc_serve_step)
  next
    case False
    with snoc show ?thesis by (simp add: run_snoc pc_apply_event)
  qed
qed

text \<open>The calls that concern the initialisation.\<close>

definition is_init_call :: "call \<Rightarrow> bool" where
  "is_init_call c = (case c of InitializeEventSet \<Rightarrow> True | InitializeExceptionAssigned e \<Rightarrow> True | _ \<Rightarrow> False)"

lemma resolve_calls:
  assumes "resolve a t out = Continue a' \<or> resolve a t out = Raise e a'"
  shows "filter is_init_call (calls a') = filter is_init_call (calls a)"
  using assms
  by (auto simp: resolve_def set_result_def set_exception_def is_init_call_def
      split: sum.splits if_splits)

lemma dispatch_calls:
  assumes "dispatch body R a env t = Continue a' \<or> dispatch body R a env t = Raise e a'"
  shows "filter is_init_call (calls a') = filter is_init_call (calls a)"
proof (cases "match R (msg_type (message env))")
  case None
  with assms show ?thesis
    by (auto simp: dispatch_def set_result_def is_init_call_def split: if_splits)
next
  case (Some h)
  define eff where "eff = body h (user a) env (handler_view (store a) env)"
  define a1 where "a1 = a\<lparr>user := ustate eff, stop_event := (stop_event a \<or> stops eff)\<rparr>"
  from assms Some
  have r: "resolve a1 t (outcome eff) = Continue a' \<or> resolve a1 t (outcome eff) = Raise e a'"
    by (simp add: dispatch_def Let_def eff_def a1_def)
  from resolve_calls[OF r] show ?thesis by (simp add: a1_def)
qed

section \<open>Initialisation\<close>

text \<open>
  Before \<^verbatim>\<open>serve\<close> runs nothing about the initialisation is set. After its first step,
  the event, the stashed exception and the history are those of the outcome of
  \<^verbatim>\<open>initialize\<close>: the event is set when \<^verbatim>\<open>initialize\<close> returned or raised an instance of
  \<^verbatim>\<open>Exception\<close>, and it is not set, then or later, when \<^verbatim>\<open>initialize\<close> raised anything
  else.
\<close>

definition init_inv :: "('u \<Rightarrow> exn option \<times> 'u) \<Rightarrow> 'u \<Rightarrow> 'u actor \<Rightarrow> bool" where
  "init_inv initialize u a \<longleftrightarrow>
     (pc a = Created \<longrightarrow>
        \<not> initialize_event a \<and> initialize_exception a = None \<and> user a = u \<and>
        filter is_init_call (calls a) = []) \<and>
     (pc a \<noteq> Created \<longrightarrow>
        (case fst (initialize u) of
           None \<Rightarrow> initialize_event a \<and> initialize_exception a = None \<and>
                   filter is_init_call (calls a) = [InitializeEventSet]
         | Some e \<Rightarrow>
             if is_Exception e then
               initialize_event a \<and> initialize_exception a = Some e \<and>
               filter is_init_call (calls a) = [InitializeEventSet, InitializeExceptionAssigned e]
             else
               \<not> initialize_event a \<and> initialize_exception a = None \<and>
               filter is_init_call (calls a) = []))"

lemma init_inv_Actor_init: "init_inv initialize u (Actor_init ctx aid st u)"
  by (simp add: init_inv_def Actor_init_def)

lemma init_inv_frame:
  assumes "init_inv initialize u a" and "pc a' = pc a" and "user a' = user a"
    and "initialize_event a' = initialize_event a"
    and "initialize_exception a' = initialize_exception a"
    and "filter is_init_call (calls a') = filter is_init_call (calls a)"
  shows "init_inv initialize u a'"
  using assms by (auto simp: init_inv_def split: option.splits)

lemma init_inv_serve_initialize:
  assumes "init_inv initialize u a" and "pc a = Created"
  shows "init_inv initialize u (serve_initialize initialize a)"
  using assms
  by (cases "initialize u")
     (auto simp: init_inv_def serve_initialize_def serve_finally_def Let_def is_init_call_def
      split: option.splits)

lemma init_inv_serve_finally:
  assumes "init_inv initialize u a" and "pc a \<noteq> Created"
  shows "init_inv initialize u (serve_finally a)"
  using assms by (auto simp: init_inv_def serve_finally_def is_init_call_def split: option.splits)

lemma init_inv_after:
  assumes "init_inv initialize u a" and "pc a \<noteq> Created" and "pc a' \<noteq> Created"
    and "initialize_event a' = initialize_event a"
    and "initialize_exception a' = initialize_exception a"
    and "filter is_init_call (calls a') = filter is_init_call (calls a)"
  shows "init_inv initialize u a'"
  using assms by (auto simp: init_inv_def split: option.splits)

lemma init_inv_serve_step:
  assumes "init_inv initialize u a"
  shows "init_inv initialize u (serve_step body R initialize a)"
proof (cases "pc a")
  case Created
  with assms show ?thesis by (simp add: serve_step_def init_inv_serve_initialize)
next
  case Exited
  with assms show ?thesis by (simp add: serve_step_def)
next
  case Serving
  show ?thesis
  proof (cases "serve_iteration body R a")
    case Blocked
    with Serving assms show ?thesis by (simp add: serve_step_def)
  next
    case (Break a')
    from serve_iteration_Break[OF Break] have "a' = a" by simp
    with Break Serving assms show ?thesis
      by (simp add: serve_step_def init_inv_serve_finally)
  next
    case (Continue a')
    from serve_iteration_Continue[OF Continue] obtain env t where
      d: "dispatch body R (a\<lparr>taken := None\<rparr>) env t = Continue a'" by blast
    from dispatch_frame(1-3)[of body R "a\<lparr>taken := None\<rparr>" env t a'] d
      dispatch_calls[of body R "a\<lparr>taken := None\<rparr>" env t a']
    have "pc a' = pc a" "initialize_event a' = initialize_event a"
      "initialize_exception a' = initialize_exception a"
      "filter is_init_call (calls a') = filter is_init_call (calls a)"
      by simp_all
    with assms Serving have "init_inv initialize u a'"
      by (intro init_inv_after[of initialize u a a']) simp_all
    with Continue Serving show ?thesis by (simp add: serve_step_def)
  next
    case (Raise e a')
    from serve_iteration_Raise[OF Raise] obtain env t where
      d: "dispatch body R (a\<lparr>taken := None\<rparr>) env t = Raise e a'" by blast
    from dispatch_frame(1-3)[of body R "a\<lparr>taken := None\<rparr>" env t a' e] d
      dispatch_calls[of body R "a\<lparr>taken := None\<rparr>" env t a' e]
    have "pc a' = pc a" "initialize_event a' = initialize_event a"
      "initialize_exception a' = initialize_exception a"
      "filter is_init_call (calls a') = filter is_init_call (calls a)"
      by simp_all
    with assms Serving have "init_inv initialize u a'" and "pc a' \<noteq> Created"
      by (simp_all add: init_inv_after[of initialize u a a'])
    then have "init_inv initialize u (serve_finally a')" by (rule init_inv_serve_finally)
    with Raise Serving show ?thesis by (simp add: serve_step_def)
  qed
qed

lemma init_inv_apply_event:
  assumes "init_inv initialize u a"
  shows "init_inv initialize u (apply_event limit body R initialize a ev)"
proof (cases ev)
  case (Post env)
  show ?thesis
  proof (cases "post limit a env")
    case (Inl e)
    with Post assms show ?thesis by simp
  next
    case (Inr p)
    obtain t a' where p: "p = (t, a')" by (cases p)
    note P = post_Inr[OF Inr[unfolded p]]
    from assms P have "init_inv initialize u a'" by (intro init_inv_frame[of initialize u a a']) simp_all
    with Post Inr p show ?thesis by simp
  qed
next
  case Stop
  from assms have "init_inv initialize u (a\<lparr>stop_event := True\<rparr>)"
    by (rule init_inv_frame) simp_all
  with Stop show ?thesis by simp
next
  case (CancelTracker t)
  from assms have "init_inv initialize u (cancel_tracker a t)"
    by (rule init_inv_frame) (simp_all add: cancel_tracker_def)
  with CancelTracker show ?thesis by simp
next
  case (Mutate x vs)
  from assms have "init_inv initialize u (a\<lparr>store := (store a)[x := (fst (store a ! x), vs)]\<rparr>)"
    by (rule init_inv_frame) simp_all
  with Mutate show ?thesis by simp
next
  case (Alloc ob)
  from assms have "init_inv initialize u (a\<lparr>store := store a @ [ob]\<rparr>)"
    by (rule init_inv_frame) simp_all
  with Alloc show ?thesis by simp
next
  case QueueGet
  from assms have "init_inv initialize u (queue_get a)"
    by (rule init_inv_frame) (simp_all add: queue_get_def split: list.splits)
  with QueueGet show ?thesis by simp
next
  case WaitStop
  from assms have "init_inv initialize u (wait_stop a)"
    by (rule init_inv_frame) (simp_all add: wait_stop_def)
  with WaitStop show ?thesis by simp
next
  case Run
  with assms show ?thesis by (simp add: init_inv_serve_step)
qed

lemma init_inv_run:
  "init_inv initialize u a \<Longrightarrow> init_inv initialize u (run limit body R initialize a es)"
  by (induction es rule: rev_induct) (simp_all add: run_Nil run_snoc init_inv_apply_event)

text \<open>
  C2, as the code has it. A run of an actor in which \<^verbatim>\<open>serve\<close> has not taken a step has
  not set \<^verbatim>\<open>initialize_event\<close>. Once \<^verbatim>\<open>serve\<close> has taken its first step, in the rest of
  the run: if \<^verbatim>\<open>initialize\<close> returned, the event has been set exactly once and
  \<^verbatim>\<open>wait_until_initialized\<close> returns; if \<^verbatim>\<open>initialize\<close> raised an instance \<open>e\<close> of
  \<^verbatim>\<open>Exception\<close>, the event has been set exactly once and then, in the same step,
  \<^verbatim>\<open>initialize_exception\<close> has been assigned \<open>e\<close>, and \<^verbatim>\<open>wait_until_initialized\<close> raises
  \<open>e\<close>; if \<^verbatim>\<open>initialize\<close> raised anything else (a cancellation), the event is never set
  and \<^verbatim>\<open>wait_until_initialized\<close> does not return.
\<close>

theorem initialize_event_set_once:
  "(let a = run limit body R initialize (Actor_init ctx aid st u) es in
     (Run \<notin> set es \<longrightarrow>
        \<not> initialize_event a \<and> filter is_init_call (calls a) = [] \<and>
        wait_until_initialized a = None) \<and>
     (Run \<in> set es \<longrightarrow>
        (case fst (initialize u) of
           None \<Rightarrow>
             initialize_event a \<and>
             filter is_init_call (calls a) = [InitializeEventSet] \<and>
             wait_until_initialized a = Some (Inr ())
         | Some e \<Rightarrow>
             if is_Exception e then
               initialize_event a \<and>
               filter is_init_call (calls a) = [InitializeEventSet, InitializeExceptionAssigned e] \<and>
               wait_until_initialized a = Some (Inl e)
             else
               \<not> initialize_event a \<and> filter is_init_call (calls a) = [] \<and>
               wait_until_initialized a = None)))"
proof -
  define a where "a = run limit body R initialize (Actor_init ctx aid st u) es"
  have inv: "init_inv initialize u a"
    unfolding a_def by (rule init_inv_run[OF init_inv_Actor_init])
  have pc: "pc a = Created \<longleftrightarrow> Run \<notin> set es"
    unfolding a_def by (rule pc_run_Created) (simp add: Actor_init_def)
  have 1: "\<not> initialize_event a \<and> filter is_init_call (calls a) = [] \<and>
        wait_until_initialized a = None" if "Run \<notin> set es"
    using inv pc that by (simp add: init_inv_def wait_until_initialized_def)
  have 2: "(case fst (initialize u) of
           None \<Rightarrow>
             initialize_event a \<and>
             filter is_init_call (calls a) = [InitializeEventSet] \<and>
             wait_until_initialized a = Some (Inr ())
         | Some e \<Rightarrow>
             if is_Exception e then
               initialize_event a \<and>
               filter is_init_call (calls a) = [InitializeEventSet, InitializeExceptionAssigned e] \<and>
               wait_until_initialized a = Some (Inl e)
             else
               \<not> initialize_event a \<and> filter is_init_call (calls a) = [] \<and>
               wait_until_initialized a = None)" if "Run \<in> set es"
  proof -
    from pc that have "pc a \<noteq> Created" by simp
    with inv show ?thesis
      by (auto simp: init_inv_def wait_until_initialized_def split: option.splits if_splits)
  qed
  from 1 2 show ?thesis unfolding Let_def a_def[symmetric] by blast
qed

text \<open>
  The default \<^verbatim>\<open>initialize\<close> of \<^verbatim>\<open>Actor\<close>, which does nothing, and \<^verbatim>\<open>FoolishActor\<close> of
  \<^verbatim>\<open>tests/conftest.py\<close>, whose \<^verbatim>\<open>initialize\<close> raises.
\<close>

definition default_initialize :: "unit \<Rightarrow> exn option \<times> unit" where
  "default_initialize u = (None, u)"

definition foolish_initialize :: "unit \<Rightarrow> exn option \<times> unit" where
  "foolish_initialize u = (Some (RuntimeError ''oh snap such a foolish actor''), u)"

definition no_body :: "unit body" where
  "no_body h u env view = \<lparr>outcome = Inr PyNone, stops = False, ustate = u\<rparr>"

definition dummy_run :: "unit actor" where
  "dummy_run =
     run 10 no_body Actor_router default_initialize (Actor_init ''/'' ''/dummy'' [] ()) [Run]"

definition foolish_run :: "unit actor" where
  "foolish_run =
     run 10 no_body Actor_router foolish_initialize (Actor_init ''/'' ''/FoolishActor'' [] ()) [Run]"

lemma dummy_run_eq:
  "dummy_run =
     \<lparr>actor_id = ''/dummy'', identity = ''/'', store = [], queue = [], taken = None,
      futs = (\<lambda>t. Pending), next_tracker = 0,
      initialize_event = True, initialize_exception = None,
      shutdown_event = False, stop_event = False, stop_waiter_done = False, pc = Serving,
      calls = [InitializeEventSet], user = ()\<rparr>"
  by (simp add: dummy_run_def run_def serve_step_def serve_initialize_def
      Actor_init_def default_initialize_def)

lemma foolish_run_eq:
  "foolish_run =
     \<lparr>actor_id = ''/FoolishActor'', identity = ''/'', store = [], queue = [], taken = None,
      futs = (\<lambda>t. Pending), next_tracker = 0,
      initialize_event = True,
      initialize_exception = Some (RuntimeError ''oh snap such a foolish actor''),
      shutdown_event = True, stop_event = False, stop_waiter_done = False, pc = Exited,
      calls = [InitializeEventSet,
               InitializeExceptionAssigned (RuntimeError ''oh snap such a foolish actor''),
               ShutdownEventSet],
      user = ()\<rparr>"
  by (simp add: foolish_run_def run_def serve_step_def serve_initialize_def serve_finally_def
      Actor_init_def foolish_initialize_def Let_def)

theorem initialize_event_set_once_witness:
  "Run \<in> set [Run] \<and>
   fst (default_initialize ()) = None \<and>
   initialize_event dummy_run \<and>
   filter is_init_call (calls dummy_run) = [InitializeEventSet] \<and>
   wait_until_initialized dummy_run = Some (Inr ()) \<and>
   fst (foolish_initialize ()) = Some (RuntimeError ''oh snap such a foolish actor'') \<and>
   is_Exception (RuntimeError ''oh snap such a foolish actor'') \<and>
   initialize_event foolish_run \<and>
   filter is_init_call (calls foolish_run) =
     [InitializeEventSet,
      InitializeExceptionAssigned (RuntimeError ''oh snap such a foolish actor'')] \<and>
   wait_until_initialized foolish_run =
     Some (Inl (RuntimeError ''oh snap such a foolish actor''))"
proof -
  have ok: "fst (default_initialize ()) = None" by (simp add: default_initialize_def)
  have ex: "fst (foolish_initialize ()) = Some (RuntimeError ''oh snap such a foolish actor'')"
    by (simp add: foolish_initialize_def)
  from initialize_event_set_once[of 10 no_body Actor_router default_initialize "''/''"
      "''/dummy''" "[]" "()" "[Run]"] ok
  have d: "initialize_event dummy_run \<and>
      filter is_init_call (calls dummy_run) = [InitializeEventSet] \<and>
      wait_until_initialized dummy_run = Some (Inr ())"
    by (simp add: Let_def dummy_run_def)
  from initialize_event_set_once[of 10 no_body Actor_router foolish_initialize "''/''"
      "''/FoolishActor''" "[]" "()" "[Run]"] ex
  have f: "initialize_event foolish_run \<and>
      filter is_init_call (calls foolish_run) =
        [InitializeEventSet,
         InitializeExceptionAssigned (RuntimeError ''oh snap such a foolish actor'')] \<and>
      wait_until_initialized foolish_run =
        Some (Inl (RuntimeError ''oh snap such a foolish actor''))"
    by (simp add: Let_def foolish_run_def)
  from d f ok ex show ?thesis by simp
qed

text \<open>
  C2 as the claim states it puts the assignment of \<^verbatim>\<open>initialize_exception\<close> before
  the setting of the event. In the run of \<^verbatim>\<open>FoolishActor\<close> the event is set first.
\<close>

theorem initialize_exception_after_event_counterexample:
  "calls foolish_run =
     [InitializeEventSet,
      InitializeExceptionAssigned (RuntimeError ''oh snap such a foolish actor''),
      ShutdownEventSet]"
  by (simp add: foolish_run_eq)

section \<open>Trackers\<close>














text \<open>
  The terminal state the loop gives the tracker of an envelope it dispatches: none when
  the handler raises what \<^verbatim>\<open>except Exception\<close> does not catch.
\<close>

definition terminal_state :: "'u body \<Rightarrow> router \<Rightarrow> 'u actor \<Rightarrow> envelope \<Rightarrow> fut option" where
  "terminal_state body R a env =
     (case match R (msg_type (message env)) of
        None \<Rightarrow> Some (Result UNHANDLED)
      | Some h \<Rightarrow>
          (case outcome (body h (user a) env (handler_view (store a) env)) of
             Inr v \<Rightarrow> Some (Result v)
           | Inl e \<Rightarrow> if is_Exception e then Some (Exception e) else None))"

lemma terminal_state_taken [simp]:
  "terminal_state body R (a\<lparr>taken := x\<rparr>) env = terminal_state body R a env"
  by (simp add: terminal_state_def split: option.splits)

lemma resolve_pending:
  assumes "futs a t = Pending"
  shows "resolve a t out =
     (case out of
        Inr v \<Rightarrow> Continue (a\<lparr>futs := (futs a)(t := Result v), calls := calls a @ [SetResult t v]\<rparr>)
      | Inl e \<Rightarrow>
          if is_Exception e
          then Continue (a\<lparr>futs := (futs a)(t := Exception e), calls := calls a @ [SetException t e]\<rparr>)
          else Raise e a)"
  using assms by (simp add: resolve_def set_result_def set_exception_def split: sum.splits)


lemma dispatch_pending:
  assumes "futs a t = Pending"
  shows "(case terminal_state body R a env of
            Some s \<Rightarrow>
              (\<exists>a' c. dispatch body R a env t = Continue a' \<and>
                 calls a' = calls a @ [c] \<and> futs a' = (futs a)(t := s) \<and>
                 ((\<exists>v. c = SetResult t v \<and> s = Result v) \<or>
                  (\<exists>e. c = SetException t e \<and> s = Exception e)))
          | None \<Rightarrow>
              (\<exists>e a'. dispatch body R a env t = Raise e a' \<and>
                 calls a' = calls a \<and> futs a' = futs a))"
proof (cases "match R (msg_type (message env))")
  case None
  with assms show ?thesis
    by (simp add: dispatch_def terminal_state_def set_result_def)
next
  case (Some h)
  define eff where "eff = body h (user a) env (handler_view (store a) env)"
  define a1 where "a1 = a\<lparr>user := ustate eff, stop_event := (stop_event a \<or> stops eff)\<rparr>"
  have d: "dispatch body R a env t = resolve a1 t (outcome eff)"
    using Some by (simp add: dispatch_def Let_def eff_def a1_def)
  have ts: "terminal_state body R a env =
      (case outcome eff of Inr v \<Rightarrow> Some (Result v)
       | Inl e \<Rightarrow> if is_Exception e then Some (Exception e) else None)"
    using Some by (simp add: terminal_state_def eff_def)
  from assms have p: "futs a1 t = Pending" by (simp add: a1_def)
  show ?thesis
    unfolding d ts resolve_pending[OF p]
    by (cases "outcome eff") (simp_all add: a1_def)
qed
















text \<open>
  The handlers of the base class \<^verbatim>\<open>Actor\<close> for an actor without actlets:
  \<^verbatim>\<open>handle_shutdown\<close> stops the service, \<^verbatim>\<open>handle_actlet_done\<close> fails on
  \<^verbatim>\<open>del self._actlets[context.sender]\<close>, \<^verbatim>\<open>handle_timer_done\<close> only logs.
\<close>

definition base_body :: "unit body" where
  "base_body h u env view =
     (if h = handle_shutdown then \<lparr>outcome = Inr PyNone, stops = True, ustate = u\<rparr>
      else if h = handle_actlet_done then
        \<lparr>outcome = Inl (KeyError (sender env)), stops = False, ustate = u\<rparr>
      else \<lparr>outcome = Inr PyNone, stops = False, ustate = u\<rparr>)"



definition timer_done_envelope :: envelope where
  "timer_done_envelope = \<lparr>env_id = ''uuid-2'', sender = ''/'', receiver = ''/dummy'',
     message = \<lparr>msg_type = TimerDoneMessage, msg_fields = []\<rparr>, reply_to = None\<rparr>"







section \<open>Proxy (\<^verbatim>\<open>actor/proxy.py\<close>)\<close>

text \<open>
  Awaiting a tracker awaits its future: the caller stays suspended while it is pending
  (\<open>None\<close>), then gets the result or the exception raised; a cancelled future raises
  \<^verbatim>\<open>CancelledError\<close>.
\<close>

definition await_tracker :: "'u actor \<Rightarrow> nat \<Rightarrow> (exn + pyval) option" where
  "await_tracker a t =
     (case futs a t of
        Pending \<Rightarrow> None
      | Result v \<Rightarrow> Some (Inr v)
      | Exception e \<Rightarrow> Some (Inl e)
      | Cancelled \<Rightarrow> Some (Inl CancelledError))"

text \<open>
  \<^verbatim>\<open>EnvelopeTracker.is_handled\<close> is \<^verbatim>\<open>self._fut.result() is not UNHANDLED\<close>, and
  \<^verbatim>\<open>result()\<close> raises on a pending, failed or cancelled future.
\<close>

definition is_handled :: "'u actor \<Rightarrow> nat \<Rightarrow> exn + bool" where
  "is_handled a t =
     (case futs a t of
        Pending \<Rightarrow> Inl InvalidStateError
      | Result v \<Rightarrow> Inr (v \<noteq> UNHANDLED)
      | Exception e \<Rightarrow> Inl e
      | Cancelled \<Rightarrow> Inl CancelledError)"

text \<open>\<^verbatim>\<open>ActorProxy.ask\<close> from \<^verbatim>\<open>await tracker\<close> on.\<close>

definition ask_resume :: "'u actor \<Rightarrow> nat \<Rightarrow> (exn + pyval) option" where
  "ask_resume a tracker =
     (case await_tracker a tracker of
        None \<Rightarrow> None
      | Some (Inl e) \<Rightarrow> Some (Inl e)
      | Some (Inr result) \<Rightarrow>
          (case is_handled a tracker of
             Inl e \<Rightarrow> Some (Inl e)
           | Inr h \<Rightarrow>
               if \<not> h then Some (Inl (RuntimeError ''actor did not handle message''))
               else Some (Inr result)))"

text \<open>
  \<^verbatim>\<open>ActorProxy.ask\<close>: tell, then await the tracker while the events \<open>es\<close> happen to the
  actor.
\<close>

definition ask ::
  "nat \<Rightarrow> 'u body \<Rightarrow> router \<Rightarrow> ('u \<Rightarrow> exn option \<times> 'u) \<Rightarrow>
   string \<Rightarrow> 'u actor \<Rightarrow> string \<Rightarrow> string \<Rightarrow> message \<Rightarrow> event list \<Rightarrow> (exn + pyval) option" where
  "ask limit body R initialize proxy_actor_id a uid context_identity m es =
     (case tell limit proxy_actor_id a uid context_identity m None of
        Inl e \<Rightarrow> Some (Inl e)
      | Inr (tracker, a1) \<Rightarrow> ask_resume (run limit body R initialize a1 es) tracker)"

text \<open>What \<^verbatim>\<open>ask\<close> gives for a state of the future.\<close>

fun ask_result :: "fut \<Rightarrow> (exn + pyval) option" where
  "ask_result Pending = None"
| "ask_result (Result v) =
     (if v = UNHANDLED then Some (Inl (RuntimeError ''actor did not handle message''))
      else Some (Inr v))"
| "ask_result (Exception e) = Some (Inl e)"
| "ask_result Cancelled = Some (Inl CancelledError)"

lemma ask_resume_result: "ask_resume a t = ask_result (futs a t)"
  by (cases "futs a t") (simp_all add: ask_resume_def await_tracker_def is_handled_def)

text \<open>The envelope \<^verbatim>\<open>tell\<close> builds and what \<^verbatim>\<open>post\<close> puts into the queue for it.\<close>

lemma tell_posts:
  assumes t: "tell limit pid a uid ctx m reply = Inr (t, a1)"
  shows "\<exists>env'. deepcopy_envelope limit (store a)
             \<lparr>env_id = uid, sender = ctx, receiver = pid, message = m, reply_to = reply\<rparr> =
             Inr (store a1, env') \<and>
           queue a1 = queue a @ [(env', t)] \<and>
           env_id env' = uid \<and> sender env' = ctx \<and> receiver env' = pid \<and>
           reply_to env' = reply \<and> msg_type (message env') = msg_type m"
  using t
  by (auto simp: tell_def post_def deepcopy_envelope_def Let_def split: sum.splits prod.splits)

lemma ask_after_one_pass:
  assumes t: "tell limit pid a uid ctx m None = Inr (t, a1)"
    and q: "queue a1 = [(env', t)]"
    and pc: "pc a = Serving" and ns: "\<not> stop_waiter_done a" and tk: "taken a = None"
  shows "(case terminal_state body R a1 env' of
            Some s \<Rightarrow> futs (run limit body R initialize a1 [QueueGet, Run]) t = s
          | None \<Rightarrow> futs (run limit body R initialize a1 [QueueGet, Run]) t = Pending \<and>
                    pc (run limit body R initialize a1 [QueueGet, Run]) = Exited)"
proof -
  from t have p: "post limit a \<lparr>env_id = uid, sender = ctx, receiver = pid, message = m,
      reply_to = None\<rparr> = Inr (t, a1)"
    by (simp add: tell_def)
  note P = post_Inr[OF p]
  define a2 where "a2 = queue_get a1"
  from P(6) P(12) pc tk q have a2: "a2 = a1\<lparr>queue := [], taken := Some (env', t)\<rparr>"
    by (simp add: a2_def queue_get_def)
  define a3 where "a3 = a2\<lparr>taken := None\<rparr>"
  have r: "run limit body R initialize a1 [QueueGet, Run] = serve_step body R initialize a2"
    by (simp add: run_def a2_def)
  have pc2: "pc a2 = Serving" and ns2: "\<not> stop_waiter_done a2"
    and tk2: "taken a2 = Some (env', t)" and f3: "futs a3 t = Pending"
    using P(3) P(6) P(13) pc ns by (simp_all add: a2 a3_def)
  have ts: "terminal_state body R a3 env' = terminal_state body R a1 env'"
    by (simp add: a2 a3_def terminal_state_def split: option.splits)
  have step: "serve_step body R initialize a2 =
      (case dispatch body R a3 env' t of
         Blocked \<Rightarrow> a2 | Continue b \<Rightarrow> b | Break b \<Rightarrow> serve_finally b
       | Raise e b \<Rightarrow> serve_finally b)"
    using pc2 ns2 tk2 by (simp add: serve_step_def serve_iteration_def a3_def)
  show ?thesis
  proof (cases "terminal_state body R a1 env'")
    case None
    with dispatch_pending[OF f3, of body R env'] ts obtain e b where
      "dispatch body R a3 env' t = Raise e b" and "futs b = futs a3" by auto
    with None f3 show ?thesis by (simp add: r step serve_finally_def)
  next
    case (Some s)
    with dispatch_pending[OF f3, of body R env'] ts obtain b where
      "dispatch body R a3 env' t = Continue b" and "futs b = (futs a3)(t := s)" by auto
    with Some show ?thesis by (simp add: r step)
  qed
qed

text \<open>
  C6. \<^verbatim>\<open>ask\<close> tells the message: the envelope built from the identity of the asking
  context, the proxy's actor id and the message is deep-copied and the copy is queued with
  the tracker. Then it awaits the tracker: while the tracker is pending it does not
  return; if the tracker's terminal state is the unhandled sentinel it raises
  \<^verbatim>\<open>RuntimeError\<close>; if it is another value, it returns that value; if it is an exception,
  it raises that exception. When the actor is serving and idle, a pass of the loop over the
  pair gives the tracker the terminal state of the dispatch of that envelope, and \<^verbatim>\<open>ask\<close>
  its outcome: the handler's return value is returned, the exception the handler raised is
  raised, and \<^verbatim>\<open>RuntimeError\<close> is raised when the router has no handler for the exact
  type of the message.
\<close>

theorem ask_by_terminal_state:
  assumes "tell limit pid a uid ctx m None = Inr (t, a1)"
  shows "(\<exists>env'. deepcopy_envelope limit (store a)
             \<lparr>env_id = uid, sender = ctx, receiver = pid, message = m, reply_to = None\<rparr> =
             Inr (store a1, env') \<and>
           queue a1 = queue a @ [(env', t)] \<and>
           env_id env' = uid \<and> sender env' = ctx \<and> receiver env' = pid \<and>
           reply_to env' = None \<and> msg_type (message env') = msg_type m \<and>
           (pc a = Serving \<and> \<not> stop_waiter_done a \<and> taken a = None \<and> queue a = [] \<longrightarrow>
              (case terminal_state body R a1 env' of
                 Some s \<Rightarrow>
                   futs (run limit body R initialize a1 [QueueGet, Run]) t = s \<and>
                   ask limit body R initialize pid a uid ctx m [QueueGet, Run] = ask_result s
               | None \<Rightarrow>
                   futs (run limit body R initialize a1 [QueueGet, Run]) t = Pending \<and>
                   pc (run limit body R initialize a1 [QueueGet, Run]) = Exited \<and>
                   ask limit body R initialize pid a uid ctx m [QueueGet, Run] = None))) \<and>
         (case futs (run limit body R initialize a1 es) t of
            Pending \<Rightarrow> ask limit body R initialize pid a uid ctx m es = None
          | Result v \<Rightarrow>
              ask limit body R initialize pid a uid ctx m es =
                (if v = UNHANDLED then Some (Inl (RuntimeError ''actor did not handle message''))
                 else Some (Inr v))
          | Exception e \<Rightarrow> ask limit body R initialize pid a uid ctx m es = Some (Inl e)
          | Cancelled \<Rightarrow>
              ask limit body R initialize pid a uid ctx m es = Some (Inl CancelledError))"
proof -
  have ask: "ask limit body R initialize pid a uid ctx m es' =
      ask_result (futs (run limit body R initialize a1 es') t)" for es'
    using assms by (simp add: ask_def ask_resume_result)
  from tell_posts[OF assms] obtain env' where
    e: "deepcopy_envelope limit (store a)
             \<lparr>env_id = uid, sender = ctx, receiver = pid, message = m, reply_to = None\<rparr> =
             Inr (store a1, env')"
    and q: "queue a1 = queue a @ [(env', t)]"
    and f: "env_id env' = uid" "sender env' = ctx" "receiver env' = pid"
      "reply_to env' = None" "msg_type (message env') = msg_type m"
    by blast
  have pass: "(case terminal_state body R a1 env' of
                 Some s \<Rightarrow>
                   futs (run limit body R initialize a1 [QueueGet, Run]) t = s \<and>
                   ask limit body R initialize pid a uid ctx m [QueueGet, Run] = ask_result s
               | None \<Rightarrow>
                   futs (run limit body R initialize a1 [QueueGet, Run]) t = Pending \<and>
                   pc (run limit body R initialize a1 [QueueGet, Run]) = Exited \<and>
                   ask limit body R initialize pid a uid ctx m [QueueGet, Run] = None)"
    if h: "pc a = Serving \<and> \<not> stop_waiter_done a \<and> taken a = None \<and> queue a = []"
  proof -
    from q h have q1: "queue a1 = [(env', t)]" by simp
    from h have pc: "pc a = Serving" and ns: "\<not> stop_waiter_done a"
      and tk: "taken a = None" by simp_all
    from ask_after_one_pass[OF assms q1 pc ns tk, of body R initialize]
    show ?thesis
      by (cases "terminal_state body R a1 env'") (simp_all add: ask[of "[QueueGet, Run]"])
  qed
  have last: "(case futs (run limit body R initialize a1 es) t of
            Pending \<Rightarrow> ask limit body R initialize pid a uid ctx m es = None
          | Result v \<Rightarrow>
              ask limit body R initialize pid a uid ctx m es =
                (if v = UNHANDLED then Some (Inl (RuntimeError ''actor did not handle message''))
                 else Some (Inr v))
          | Exception e \<Rightarrow> ask limit body R initialize pid a uid ctx m es = Some (Inl e)
          | Cancelled \<Rightarrow>
              ask limit body R initialize pid a uid ctx m es = Some (Inl CancelledError))"
    by (cases "futs (run limit body R initialize a1 es) t") (simp_all add: ask[of es])
  from e q f pass last show ?thesis by blast
qed

definition UnhandledMessage :: msg_cls where
  "UnhandledMessage = \<lparr>cls_id = 7, cls_name = ''UnhandledMessage'', is_message = True\<rparr>"

definition serving_actor :: "unit actor" where
  "serving_actor =
     run 10 base_body Actor_router default_initialize (Actor_init ''/'' ''/dummy'' [] ()) [Run]"

lemma serving_actor_eq:
  "serving_actor =
     \<lparr>actor_id = ''/dummy'', identity = ''/'', store = [], queue = [], taken = None,
      futs = (\<lambda>t. Pending), next_tracker = 0,
      initialize_event = True, initialize_exception = None,
      shutdown_event = False, stop_event = False, stop_waiter_done = False, pc = Serving,
      calls = [InitializeEventSet], user = ()\<rparr>"
  by (simp add: serving_actor_def run_def serve_step_def serve_initialize_def
      Actor_init_def default_initialize_def)

definition unhandled_envelope :: envelope where
  "unhandled_envelope = \<lparr>env_id = ''uuid-3'', sender = ''/'', receiver = ''/dummy'',
     message = \<lparr>msg_type = UnhandledMessage, msg_fields = []\<rparr>, reply_to = None\<rparr>"

definition unhandled_told :: "unit actor" where
  "unhandled_told = serving_actor\<lparr>queue := [(unhandled_envelope, 0)], next_tracker := 1\<rparr>"

definition timer_done_told :: "unit actor" where
  "timer_done_told = serving_actor\<lparr>queue := [(timer_done_envelope, 0)], next_tracker := 1\<rparr>"

lemma tell_unhandled:
  "tell 10 ''/dummy'' serving_actor ''uuid-3'' ''/'' \<lparr>msg_type = UnhandledMessage, msg_fields = []\<rparr> None
     = Inr (0, unhandled_told)"
  by (simp add: tell_def post_def deepcopy_envelope_def Let_def serving_actor_eq
      unhandled_told_def unhandled_envelope_def fun_eq_iff)

lemma tell_timer_done:
  "tell 10 ''/dummy'' serving_actor ''uuid-2'' ''/'' \<lparr>msg_type = TimerDoneMessage, msg_fields = []\<rparr> None
     = Inr (0, timer_done_told)"
  by (simp add: tell_def post_def deepcopy_envelope_def Let_def serving_actor_eq
      timer_done_told_def timer_done_envelope_def fun_eq_iff)

theorem ask_by_terminal_state_witness:
  "tell 10 ''/dummy'' serving_actor ''uuid-3'' ''/'' \<lparr>msg_type = UnhandledMessage, msg_fields = []\<rparr> None
     = Inr (0, unhandled_told) \<and>
   tell 10 ''/dummy'' serving_actor ''uuid-2'' ''/'' \<lparr>msg_type = TimerDoneMessage, msg_fields = []\<rparr> None
     = Inr (0, timer_done_told) \<and>
   pc serving_actor = Serving \<and> \<not> stop_waiter_done serving_actor \<and>
   taken serving_actor = None \<and> queue serving_actor = [] \<and>
   queue unhandled_told = [(unhandled_envelope, 0)] \<and>
   terminal_state base_body Actor_router unhandled_told unhandled_envelope =
     Some (Result UNHANDLED) \<and>
   ask 10 base_body Actor_router default_initialize ''/dummy'' serving_actor ''uuid-3'' ''/''
     \<lparr>msg_type = UnhandledMessage, msg_fields = []\<rparr> [QueueGet, Run]
     = Some (Inl (RuntimeError ''actor did not handle message'')) \<and>
   queue timer_done_told = [(timer_done_envelope, 0)] \<and>
   terminal_state base_body Actor_router timer_done_told timer_done_envelope =
     Some (Result PyNone) \<and>
   ask 10 base_body Actor_router default_initialize ''/dummy'' serving_actor ''uuid-2'' ''/''
     \<lparr>msg_type = TimerDoneMessage, msg_fields = []\<rparr> [QueueGet, Run]
     = Some (Inr PyNone)"
proof -
  have idle: "pc serving_actor = Serving \<and> \<not> stop_waiter_done serving_actor \<and>
      taken serving_actor = None \<and> queue serving_actor = []"
    by (simp add: serving_actor_eq)
  have qu: "queue unhandled_told = [(unhandled_envelope, 0)]"
    by (simp add: unhandled_told_def)
  have qt: "queue timer_done_told = [(timer_done_envelope, 0)]"
    by (simp add: timer_done_told_def)
  have tu: "terminal_state base_body Actor_router unhandled_told unhandled_envelope =
      Some (Result UNHANDLED)"
    by (simp add: terminal_state_def match_def Actor_router_def unhandled_envelope_def
        UnhandledMessage_def example_classes)
  have tt: "terminal_state base_body Actor_router timer_done_told timer_done_envelope =
      Some (Result PyNone)"
    by (simp add: terminal_state_def match_def Actor_router_def timer_done_envelope_def
        base_body_def example_classes)
  from ask_by_terminal_state[OF tell_unhandled, of base_body Actor_router default_initialize "[]"]
  obtain env1 where q1: "queue unhandled_told = queue serving_actor @ [(env1, 0)]"
    and p1: "pc serving_actor = Serving \<and> \<not> stop_waiter_done serving_actor \<and>
        taken serving_actor = None \<and> queue serving_actor = [] \<longrightarrow>
        (case terminal_state base_body Actor_router unhandled_told env1 of
           Some s \<Rightarrow>
             futs (run 10 base_body Actor_router default_initialize unhandled_told [QueueGet, Run]) 0 = s \<and>
             ask 10 base_body Actor_router default_initialize ''/dummy'' serving_actor ''uuid-3'' ''/''
               \<lparr>msg_type = UnhandledMessage, msg_fields = []\<rparr> [QueueGet, Run] = ask_result s
         | None \<Rightarrow>
             futs (run 10 base_body Actor_router default_initialize unhandled_told [QueueGet, Run]) 0 = Pending \<and>
             pc (run 10 base_body Actor_router default_initialize unhandled_told [QueueGet, Run]) = Exited \<and>
             ask 10 base_body Actor_router default_initialize ''/dummy'' serving_actor ''uuid-3'' ''/''
               \<lparr>msg_type = UnhandledMessage, msg_fields = []\<rparr> [QueueGet, Run] = None)"
    by blast
  from q1 qu idle have e1: "env1 = unhandled_envelope" by simp
  from p1 idle tu have a1: "ask 10 base_body Actor_router default_initialize ''/dummy'' serving_actor
      ''uuid-3'' ''/'' \<lparr>msg_type = UnhandledMessage, msg_fields = []\<rparr> [QueueGet, Run]
      = Some (Inl (RuntimeError ''actor did not handle message''))"
    by (simp add: e1)
  from ask_by_terminal_state[OF tell_timer_done, of base_body Actor_router default_initialize "[]"]
  obtain env2 where q2: "queue timer_done_told = queue serving_actor @ [(env2, 0)]"
    and p2: "pc serving_actor = Serving \<and> \<not> stop_waiter_done serving_actor \<and>
        taken serving_actor = None \<and> queue serving_actor = [] \<longrightarrow>
        (case terminal_state base_body Actor_router timer_done_told env2 of
           Some s \<Rightarrow>
             futs (run 10 base_body Actor_router default_initialize timer_done_told [QueueGet, Run]) 0 = s \<and>
             ask 10 base_body Actor_router default_initialize ''/dummy'' serving_actor ''uuid-2'' ''/''
               \<lparr>msg_type = TimerDoneMessage, msg_fields = []\<rparr> [QueueGet, Run] = ask_result s
         | None \<Rightarrow>
             futs (run 10 base_body Actor_router default_initialize timer_done_told [QueueGet, Run]) 0 = Pending \<and>
             pc (run 10 base_body Actor_router default_initialize timer_done_told [QueueGet, Run]) = Exited \<and>
             ask 10 base_body Actor_router default_initialize ''/dummy'' serving_actor ''uuid-2'' ''/''
               \<lparr>msg_type = TimerDoneMessage, msg_fields = []\<rparr> [QueueGet, Run] = None)"
    by blast
  from q2 qt idle have e2: "env2 = timer_done_envelope" by simp
  from p2 idle tt have a2: "ask 10 base_body Actor_router default_initialize ''/dummy'' serving_actor
      ''uuid-2'' ''/'' \<lparr>msg_type = TimerDoneMessage, msg_fields = []\<rparr> [QueueGet, Run]
      = Some (Inr PyNone)"
    by (simp add: e2)
  from tell_unhandled tell_timer_done idle qu qt tu tt a1 a2 show ?thesis by simp
qed

section \<open>Timer (\<^verbatim>\<open>Actor._generic_timer\<close>)\<close>

text \<open>\<^verbatim>\<open>TimerConfiguration\<close> of \<^verbatim>\<open>actor/messages.py\<close>.\<close>

record timer_configuration =
  tc_message :: message
  interval :: real
  delay :: real
  now :: bool
  repetitions :: int

text \<open>
  What the timer awaits: \<^verbatim>\<open>asyncio.sleep\<close> and \<^verbatim>\<open>proxy.tell\<close>. An awaited
  operation completes or raises; a cancellation of the timer is \<^verbatim>\<open>CancelledError\<close>
  raised by the operation it is awaiting. The completed ones are recorded in order. The
  timer returns a message or ends with an exception.
\<close>

datatype timer_event = Sleep real | Tell message

datatype timer_result = Returned message | Raised exn

text \<open>
  The local \<^verbatim>\<open>repetitions\<close>: the configured integer, or \<^verbatim>\<open>float('inf')\<close>, which
  stays infinite when decremented.
\<close>

datatype reps = Finite int | Infinite

fun positive :: "reps \<Rightarrow> bool" where
  "positive (Finite n) = (0 < n)"
| "positive Infinite = True"

fun decrement :: "reps \<Rightarrow> reps" where
  "decrement (Finite n) = Finite (n - 1)"
| "decrement Infinite = Infinite"

text \<open>
  The environment decides the fate of each awaited operation, numbered by the operations
  completed before it.
\<close>

definition perform ::
  "(nat \<Rightarrow> exn option) \<Rightarrow> timer_event list \<Rightarrow> timer_event \<Rightarrow> exn + timer_event list" where
  "perform env trace ev =
     (case env (length trace) of None \<Rightarrow> Inr (trace @ [ev]) | Some e \<Rightarrow> Inl e)"

definition timer_done_message :: message where
  "timer_done_message = \<lparr>msg_type = TimerDoneMessage, msg_fields = []\<rparr>"

text \<open>
  \<^verbatim>\<open>except asyncio.CancelledError: raise\<close>, and \<^verbatim>\<open>except Exception\<close> logs and falls
  through to \<^verbatim>\<open>return TimerDoneMessage()\<close>; any other exception leaves the timer.
\<close>

definition interrupted :: "exn \<Rightarrow> timer_result" where
  "interrupted e = (if is_Exception e then Returned timer_done_message else Raised e)"

text \<open>
  The \<^verbatim>\<open>while repetitions > 0\<close> loop. It may run forever: the first argument bounds the
  number of passes, and the result \<open>None\<close> says that the timer is still running after
  them.
\<close>

fun timer_loop ::
  "nat \<Rightarrow> (nat \<Rightarrow> exn option) \<Rightarrow> timer_configuration \<Rightarrow> reps \<Rightarrow> timer_event list \<Rightarrow>
   timer_event list \<times> timer_result option" where
  "timer_loop fuel env configuration remaining trace =
     (if \<not> positive remaining then (trace, Some (Returned timer_done_message))
      else (case fuel of
              0 \<Rightarrow> (trace, None)
            | Suc fuel' \<Rightarrow>
                (case perform env trace (Sleep (interval configuration)) of
                   Inl i \<Rightarrow> (trace, Some (interrupted i))
                 | Inr trace1 \<Rightarrow>
                     (case perform env trace1 (Tell (tc_message configuration)) of
                        Inl i \<Rightarrow> (trace1, Some (interrupted i))
                      | Inr trace2 \<Rightarrow>
                          timer_loop fuel' env configuration (decrement remaining) trace2))))"

declare timer_loop.simps [simp del]

definition generic_timer ::
  "nat \<Rightarrow> (nat \<Rightarrow> exn option) \<Rightarrow> timer_configuration \<Rightarrow>
   timer_event list \<times> timer_result option" where
  "generic_timer fuel env configuration =
     (case (if delay configuration \<noteq> 0 then perform env [] (Sleep (delay configuration))
            else Inr []) of
        Inl i \<Rightarrow> ([], Some (interrupted i))
      | Inr trace0 \<Rightarrow>
          (let remaining = (if repetitions configuration \<noteq> 0
                            then Finite (repetitions configuration) else Infinite)
           in if now configuration then
                (case perform env trace0 (Tell (tc_message configuration)) of
                   Inl i \<Rightarrow> (trace0, Some (interrupted i))
                 | Inr trace1 \<Rightarrow> timer_loop fuel env configuration (decrement remaining) trace1)
              else timer_loop fuel env configuration remaining trace0))"

lemma perform_quiet: "\<forall>i. env i = None \<Longrightarrow> perform env trace ev = Inr (trace @ [ev])"
  by (simp add: perform_def)

lemma timer_loop_finite:
  assumes "\<forall>i. env i = None"
  shows "nat n \<le> fuel \<Longrightarrow>
     timer_loop fuel env cfg (Finite n) trace =
       (trace @ concat (replicate (nat n) [Sleep (interval cfg), Tell (tc_message cfg)]),
        Some (Returned timer_done_message))"
proof (induction fuel arbitrary: n trace)
  case 0
  then show ?case by (simp add: timer_loop.simps)
next
  case (Suc fuel)
  show ?case
  proof (cases "0 < n")
    case False
    then show ?thesis by (simp add: timer_loop.simps)
  next
    case True
    then have n: "nat n = Suc (nat (n - 1))" by simp
    from Suc.prems True have "nat (n - 1) \<le> fuel" by simp
    from Suc.IH[OF this] True show ?thesis
      by (subst timer_loop.simps) (simp add: perform_quiet[OF assms] n del: replicate.simps add: replicate_Suc)
  qed
qed

lemma timer_loop_infinite:
  assumes "\<forall>i. env i = None"
  shows "timer_loop fuel env cfg Infinite trace =
       (trace @ concat (replicate fuel [Sleep (interval cfg), Tell (tc_message cfg)]), None)"
proof (induction fuel arbitrary: trace)
  case 0
  then show ?case by (simp add: timer_loop.simps)
next
  case (Suc fuel)
  then show ?case
    by (subst timer_loop.simps) (simp add: perform_quiet[OF assms])
qed

lemma count_list_rounds:
  "count_list (concat (replicate n [Sleep d, Tell m])) (Tell m) = n"
  by (induction n) simp_all


text \<open>
  C3, as the code has it. When no awaited operation raises (none fails, and the timer is
  not cancelled): a timer with \<open>k > 0\<close> repetitions, given at least \<open>k\<close> passes, returns
  a \<^verbatim>\<open>TimerDoneMessage\<close> after telling the payload exactly \<open>k\<close> times, whether \<^verbatim>\<open>now\<close>
  is set or not; with \<^verbatim>\<open>now\<close> the first tell comes before the first sleep of an
  interval, without it every tell follows one. A timer with 0 repetitions has not
  returned after any number of passes and has told the payload once in each of them (and
  once more with \<^verbatim>\<open>now\<close>).
\<close>

theorem generic_timer_repetitions:
  assumes quiet: "\<forall>i. env i = None"
  shows "(0 < repetitions cfg \<and> nat (repetitions cfg) \<le> fuel \<longrightarrow>
            generic_timer fuel env cfg =
              ((if delay cfg \<noteq> 0 then [Sleep (delay cfg)] else []) @
               (if now cfg
                then Tell (tc_message cfg) #
                     concat (replicate (nat (repetitions cfg) - 1)
                               [Sleep (interval cfg), Tell (tc_message cfg)])
                else concat (replicate (nat (repetitions cfg))
                               [Sleep (interval cfg), Tell (tc_message cfg)])),
               Some (Returned timer_done_message)) \<and>
            count_list (fst (generic_timer fuel env cfg)) (Tell (tc_message cfg)) =
              nat (repetitions cfg)) \<and>
         (repetitions cfg = 0 \<longrightarrow>
            snd (generic_timer fuel env cfg) = None \<and>
            count_list (fst (generic_timer fuel env cfg)) (Tell (tc_message cfg)) =
              fuel + (if now cfg then 1 else 0))"
proof (intro conjI impI)
  assume k: "0 < repetitions cfg \<and> nat (repetitions cfg) \<le> fuel"
  then have le1: "nat (repetitions cfg - 1) \<le> fuel" and le: "nat (repetitions cfg) \<le> fuel"
    and ne: "repetitions cfg \<noteq> 0" by linarith+
  have m1: "nat (repetitions cfg - 1) = nat (repetitions cfg) - 1" by simp
  show eq: "generic_timer fuel env cfg =
              ((if delay cfg \<noteq> 0 then [Sleep (delay cfg)] else []) @
               (if now cfg
                then Tell (tc_message cfg) #
                     concat (replicate (nat (repetitions cfg) - 1)
                               [Sleep (interval cfg), Tell (tc_message cfg)])
                else concat (replicate (nat (repetitions cfg))
                               [Sleep (interval cfg), Tell (tc_message cfg)])),
               Some (Returned timer_done_message))"
    using ne
    by (simp add: generic_timer_def perform_quiet[OF quiet] Let_def
        timer_loop_finite[OF quiet le1] timer_loop_finite[OF quiet le] m1)
  from k have pos: "0 < nat (repetitions cfg)" by simp
  show "count_list (fst (generic_timer fuel env cfg)) (Tell (tc_message cfg)) =
          nat (repetitions cfg)"
    unfolding eq using pos by (simp add: count_list_rounds)
next
  assume z: "repetitions cfg = 0"
  have eq: "generic_timer fuel env cfg =
      ((if delay cfg \<noteq> 0 then [Sleep (delay cfg)] else []) @
       (if now cfg then [Tell (tc_message cfg)] else []) @
       concat (replicate fuel [Sleep (interval cfg), Tell (tc_message cfg)]), None)"
    using z
    by (simp add: generic_timer_def perform_quiet[OF quiet] Let_def timer_loop_infinite[OF quiet])
  show "snd (generic_timer fuel env cfg) = None" by (simp add: eq)
  show "count_list (fst (generic_timer fuel env cfg)) (Tell (tc_message cfg)) =
          fuel + (if now cfg then 1 else 0)"
    unfolding eq by (simp add: count_list_rounds)
qed

definition some_message :: message where
  "some_message = \<lparr>msg_type = \<lparr>cls_id = 8, cls_name = ''SomeMessage'', is_message = True\<rparr>,
                    msg_fields = []\<rparr>"

definition five_now :: timer_configuration where
  "five_now = \<lparr>tc_message = some_message, interval = 1 / 10, delay = 0, now = True,
               repetitions = 5\<rparr>"

theorem generic_timer_repetitions_witness:
  "(\<forall>i. (\<lambda>i. None :: exn option) i = None) \<and> 0 < repetitions five_now \<and>
   nat (repetitions five_now) \<le> 5 \<and>
   generic_timer 5 (\<lambda>i. None) five_now =
     ([Tell some_message,
       Sleep (1 / 10), Tell some_message, Sleep (1 / 10), Tell some_message,
       Sleep (1 / 10), Tell some_message, Sleep (1 / 10), Tell some_message],
      Some (Returned timer_done_message)) \<and>
   count_list (fst (generic_timer 5 (\<lambda>i. None) five_now)) (Tell some_message) = 5"
proof -
  have q: "\<forall>i. (\<lambda>i. None :: exn option) i = None" by simp
  have k: "0 < repetitions five_now \<and> nat (repetitions five_now) \<le> 5"
    by (simp add: five_now_def)
  from generic_timer_repetitions[OF q, of five_now 5] k
  show ?thesis by (simp add: five_now_def numeral_eq_Suc)
qed


text \<open>
  C3 as the claim states it holds for every timer with \<open>k > 0\<close> repetitions. The timer of
  \<^verbatim>\<open>test_exception_timer\<close> has \<^verbatim>\<open>now\<close> set and an interval that is not a number: the
  first tell completes, the first \<^verbatim>\<open>asyncio.sleep\<close> raises \<^verbatim>\<open>TypeError\<close>, and the timer
  logs it and returns its \<^verbatim>\<open>TimerDoneMessage\<close>. With 5 repetitions asked for, the
  payload has been told once.
\<close>

definition failing_sleep :: "nat \<Rightarrow> exn option" where
  "failing_sleep i = (if i = 1 then Some (TypeError ''<= not supported between instances of str and int'') else None)"

theorem generic_timer_failing_sleep_counterexample:
  "repetitions five_now = 5 \<and>
   generic_timer 5 failing_sleep five_now =
     ([Tell some_message], Some (Returned timer_done_message)) \<and>
   count_list (fst (generic_timer 5 failing_sleep five_now)) (Tell some_message) = 1"
proof -
  have "generic_timer 5 failing_sleep five_now =
     ([Tell some_message], Some (Returned timer_done_message))"
    by (simp add: generic_timer_def five_now_def perform_def failing_sleep_def Let_def
        timer_loop.simps interrupted_def numeral_eq_Suc)
  then show ?thesis by (simp add: five_now_def)
qed

section \<open>Context (\<^verbatim>\<open>context.py\<close>)\<close>

text \<open>
  What a context may hold in a field or receive as a keyword argument: a plain value, or a
  logger with its bound key/value pairs. \<open>truthy\<close> is Python's truth value of it.
\<close>

datatype obj = Val pyval | Logger "(string \<times> obj) list"

fun truthy :: "obj \<Rightarrow> bool" where
  "truthy (Val PyNone) = False"
| "truthy (Val (PyBool b)) = b"
| "truthy (Val (PyInt n)) = (n \<noteq> 0)"
| "truthy (Val (PyStr s)) = (s \<noteq> [])"
| "truthy (Val (PyObj x)) = True"
| "truthy (Val UNHANDLED) = True"
| "truthy (Logger bindings) = True"

text \<open>Python's \<^verbatim>\<open>x or y\<close> and \<^verbatim>\<open>kwargs.get(k)\<close>.\<close>

definition py_or :: "obj \<Rightarrow> obj \<Rightarrow> obj" where
  "py_or x y = (if truthy x then x else y)"

definition kwargs_get :: "(string \<times> obj) list \<Rightarrow> string \<Rightarrow> obj" where
  "kwargs_get kwargs k = (case map_of kwargs k of None \<Rightarrow> Val PyNone | Some v \<Rightarrow> v)"

text \<open>\<^verbatim>\<open>logger.bind(**kwargs)\<close>: the bound pairs updated with the new ones.\<close>

definition log_bind :: "(string \<times> obj) list \<Rightarrow> (string \<times> obj) list \<Rightarrow> (string \<times> obj) list" where
  "log_bind bindings kwargs = foldl (\<lambda>bs (k, v). AList.update k v bs) bindings kwargs"

text \<open>A context object: its class and its four attributes.\<close>

record actor_context =
  ctx_cls :: string
  ctx_core :: obj
  ctx_log :: obj
  ctx_identity :: obj
  ctx_envelope :: obj

text \<open>
  \<^verbatim>\<open>Context.__init__\<close>: a truthy \<^verbatim>\<open>log\<close> is replaced by
  \<^verbatim>\<open>log.bind(identity=identity, **kwargs)\<close>, which fails on a value that is not a logger.
\<close>

definition init_log :: "obj \<Rightarrow> obj \<Rightarrow> (string \<times> obj) list \<Rightarrow> exn + obj" where
  "init_log logger ident kwargs =
     (if truthy logger then
        (case logger of
           Logger bindings \<Rightarrow> Inr (Logger (log_bind bindings (AList.update ''identity'' ident kwargs)))
         | Val v \<Rightarrow> Inl (AttributeError ''bind''))
      else Inr logger)"

definition Context_init ::
  "string \<Rightarrow> obj \<Rightarrow> obj \<Rightarrow> obj \<Rightarrow> obj \<Rightarrow> (string \<times> obj) list \<Rightarrow> exn + actor_context" where
  "Context_init cls core logger ident envelope kwargs =
     (case init_log logger ident kwargs of
        Inl e \<Rightarrow> Inl e
      | Inr log' \<Rightarrow>
          Inr \<lparr>ctx_cls = cls, ctx_core = core, ctx_log = log', ctx_identity = ident,
               ctx_envelope = envelope\<rparr>)"

text \<open>
  \<^verbatim>\<open>Context.__call__\<close>. The keyword arguments other than the four are dropped (the
  \<^verbatim>\<open>TODO\<close> of the source), and the class constructed is \<^verbatim>\<open>Context\<close>.
\<close>

definition call :: "actor_context \<Rightarrow> (string \<times> obj) list \<Rightarrow> exn + actor_context" where
  "call self kwargs =
     Context_init ''Context''
       (py_or (kwargs_get kwargs ''core'') (ctx_core self))
       (py_or (kwargs_get kwargs ''log'') (ctx_log self))
       (py_or (kwargs_get kwargs ''identity'') (ctx_identity self))
       (py_or (kwargs_get kwargs ''envelope'') (ctx_envelope self))
       []"

text \<open>
  C10. A derived context is of class \<^verbatim>\<open>Context\<close> whatever the class of the original.
  For each of \<^verbatim>\<open>core\<close>, \<^verbatim>\<open>identity\<close> and \<^verbatim>\<open>envelope\<close>, a falsy or missing override
  leaves the current value; for \<^verbatim>\<open>log\<close> it passes the current logger to the constructor,
  which binds the identity to it as to any logger. So a field that is truthy in the
  original is truthy in the derived context: no override makes it falsy.
\<close>

theorem call_falls_back_on_falsy:
  assumes "call self kwargs = Inr derived"
  shows "ctx_cls derived = ''Context'' \<and>
         (\<not> truthy (kwargs_get kwargs ''core'') \<longrightarrow> ctx_core derived = ctx_core self) \<and>
         (\<not> truthy (kwargs_get kwargs ''identity'') \<longrightarrow> ctx_identity derived = ctx_identity self) \<and>
         (\<not> truthy (kwargs_get kwargs ''envelope'') \<longrightarrow> ctx_envelope derived = ctx_envelope self) \<and>
         (\<not> truthy (kwargs_get kwargs ''log'') \<longrightarrow>
            init_log (ctx_log self) (ctx_identity derived) [] = Inr (ctx_log derived)) \<and>
         (truthy (ctx_core self) \<longrightarrow> truthy (ctx_core derived)) \<and>
         (truthy (ctx_identity self) \<longrightarrow> truthy (ctx_identity derived)) \<and>
         (truthy (ctx_envelope self) \<longrightarrow> truthy (ctx_envelope derived)) \<and>
         (truthy (ctx_log self) \<longrightarrow> truthy (ctx_log derived))"
  using assms
  by (auto simp: call_def Context_init_def py_or_def init_log_def
      split: sum.splits if_splits obj.splits)

definition subclass_context :: actor_context where
  "subclass_context =
     \<lparr>ctx_cls = ''MyContext'', ctx_core = Val (PyObj 1),
      ctx_log = Logger [(''identity'', Val (PyStr ''/actor''))],
      ctx_identity = Val (PyStr ''/actor''), ctx_envelope = Val PyNone\<rparr>"

definition falsy_overrides :: "(string \<times> obj) list" where
  "falsy_overrides = [(''identity'', Val (PyStr '''')), (''core'', Val PyNone)]"

theorem call_falls_back_on_falsy_witness:
  "call subclass_context falsy_overrides =
     Inr (subclass_context\<lparr>ctx_cls := ''Context''\<rparr>) \<and>
   \<not> truthy (kwargs_get falsy_overrides ''identity'') \<and>
   ctx_identity (subclass_context\<lparr>ctx_cls := ''Context''\<rparr>) = ctx_identity subclass_context \<and>
   ctx_cls (subclass_context\<lparr>ctx_cls := ''Context''\<rparr>) = ''Context''"
proof -
  have c: "call subclass_context falsy_overrides = Inr (subclass_context\<lparr>ctx_cls := ''Context''\<rparr>)"
    by (simp add: call_def Context_init_def init_log_def py_or_def kwargs_get_def log_bind_def
        subclass_context_def falsy_overrides_def)
  have f: "\<not> truthy (kwargs_get falsy_overrides ''identity'')"
    by (simp add: kwargs_get_def falsy_overrides_def)
  from call_falls_back_on_falsy[OF c] c f show ?thesis by simp
qed


section \<open>Identities (\<^verbatim>\<open>Core._generate_actor_id\<close>)\<close>

text \<open>
  \<^verbatim>\<open>_generate_actor_id\<close> is \<^verbatim>\<open>str(pathlib.Path(base) / actor_id)\<close>. The functions below
  are those of CPython's \<^verbatim>\<open>pathlib\<close> for POSIX paths, which have no drive:
  \<^verbatim>\<open>str.split\<close>, \<^verbatim>\<open>str.join\<close> and \<^verbatim>\<open>str.lstrip\<close> on the separator, \<^verbatim>\<open>splitroot\<close>,
  \<^verbatim>\<open>parse_parts\<close> for one string, \<^verbatim>\<open>join_parsed_parts\<close> and the string of the parsed
  parts. \<open>anchor\<close> is the variable \<^verbatim>\<open>root\<close> of the source.
\<close>

fun split_sep :: "char \<Rightarrow> string \<Rightarrow> string list" where
  "split_sep c [] = [[]]"
| "split_sep c (x # xs) =
     (if x = c then [] # split_sep c xs
      else (case split_sep c xs of p # ps \<Rightarrow> (x # p) # ps | [] \<Rightarrow> [[x]]))"

fun sep_join :: "string list \<Rightarrow> string" where
  "sep_join [] = []"
| "sep_join [p] = p"
| "sep_join (p # q # ps) = p @ CHR ''/'' # sep_join (q # ps)"

definition lstrip :: "char \<Rightarrow> string \<Rightarrow> string" where
  "lstrip c s = dropWhile (\<lambda>x. x = c) s"

definition splitroot :: "string \<Rightarrow> string \<times> string" where
  "splitroot part =
     (if part \<noteq> [] \<and> hd part = CHR ''/'' then
        (let stripped_part = lstrip (CHR ''/'') part
         in if length part - length stripped_part = 2 then (''//'', stripped_part)
            else (''/'', stripped_part))
      else ('''', part))"

definition parse_parts :: "string \<Rightarrow> string \<times> string list" where
  "parse_parts part =
     (if part = [] then ('''', [])
      else (let (anchor, rel) = splitroot part;
                parsed = (if CHR ''/'' \<in> set rel
                          then filter (\<lambda>x. x \<noteq> [] \<and> x \<noteq> ''.'') (split_sep (CHR ''/'') rel)
                          else if rel \<noteq> [] \<and> rel \<noteq> ''.'' then [rel] else [])
            in (anchor, (if anchor \<noteq> [] then [anchor] else []) @ parsed)))"

definition join_parsed_parts ::
  "string \<times> string list \<Rightarrow> string \<times> string list \<Rightarrow> string \<times> string list" where
  "join_parsed_parts p p2 =
     (case (p, p2) of
        ((anchor, parts), (anchor2, parts2)) \<Rightarrow>
          if anchor2 \<noteq> [] then (anchor2, parts2) else (anchor, parts @ parts2))"

definition path_str :: "string \<times> string list \<Rightarrow> string" where
  "path_str p =
     (case p of
        (anchor, parts) \<Rightarrow>
          (let s = (if anchor \<noteq> [] then anchor @ sep_join (tl parts) else sep_join parts)
           in if s = [] then ''.'' else s))"

definition generate_actor_id :: "string \<Rightarrow> string \<Rightarrow> string" where
  "generate_actor_id base aid =
     path_str (join_parsed_parts (parse_parts base) (parse_parts aid))"


text \<open>
  A segment of a canonical identity: not empty, without separator, and not the segment
  \<^verbatim>\<open>.\<close> that \<^verbatim>\<open>pathlib\<close> drops.
\<close>

definition proper :: "string \<Rightarrow> bool" where
  "proper s \<longleftrightarrow> s \<noteq> [] \<and> CHR ''/'' \<notin> set s \<and> s \<noteq> ''.''"

lemma split_sep_nonempty: "split_sep c s \<noteq> []"
  by (induction s) (auto split: list.splits)

lemma split_sep_no_sep: "c \<notin> set s \<Longrightarrow> split_sep c s = [s]"
  by (induction s) auto

lemma split_sep_append: "c \<notin> set s \<Longrightarrow> split_sep c (s @ c # t) = s # split_sep c t"
  by (induction s) auto

lemma split_sep_join:
  "ps \<noteq> [] \<Longrightarrow> \<forall>p \<in> set ps. CHR ''/'' \<notin> set p \<Longrightarrow> split_sep (CHR ''/'') (sep_join ps) = ps"
  by (induction ps rule: sep_join.induct) (simp_all add: split_sep_no_sep split_sep_append)

lemma sep_join_append:
  "ps \<noteq> [] \<Longrightarrow> qs \<noteq> [] \<Longrightarrow> sep_join (ps @ qs) = sep_join ps @ CHR ''/'' # sep_join qs"
  by (induction ps rule: sep_join.induct) (auto simp: neq_Nil_conv)

lemma sep_join_head:
  "\<forall>p \<in> set ps. proper p \<Longrightarrow> sep_join ps = [] \<or> hd (sep_join ps) \<noteq> CHR ''/''"
  by (induction ps rule: sep_join.induct) (auto simp: proper_def neq_Nil_conv)

lemma sep_join_nonempty: "ps \<noteq> [] \<Longrightarrow> \<forall>p \<in> set ps. proper p \<Longrightarrow> sep_join ps \<noteq> []"
  by (induction ps rule: sep_join.induct) (auto simp: proper_def)

lemma rel_components:
  assumes "\<forall>p \<in> set ps. proper p"
  shows "(if CHR ''/'' \<in> set (sep_join ps)
          then filter (\<lambda>x. x \<noteq> [] \<and> x \<noteq> ''.'') (split_sep (CHR ''/'') (sep_join ps))
          else if sep_join ps \<noteq> [] \<and> sep_join ps \<noteq> ''.'' then [sep_join ps] else []) = ps"
proof (cases "ps = []")
  case True
  then show ?thesis by simp
next
  case False
  have keep: "filter (\<lambda>x. x \<noteq> [] \<and> x \<noteq> ''.'') ps = ps"
    using assms by (auto simp: proper_def filter_id_conv)
  from assms have nosep: "\<forall>p \<in> set ps. CHR ''/'' \<notin> set p" by (simp add: proper_def)
  have sp: "split_sep (CHR ''/'') (sep_join ps) = ps" by (rule split_sep_join[OF False nosep])
  show ?thesis
  proof (cases "CHR ''/'' \<in> set (sep_join ps)")
    case True
    then show ?thesis by (simp add: sp keep)
  next
    case no: False
    from split_sep_no_sep[OF no] sp have one: "ps = [sep_join ps]" by simp
    with assms have "proper (sep_join ps)" by (metis list.set_intros(1))
    with no one show ?thesis by (simp add: proper_def)
  qed
qed

lemma parse_parts_absolute:
  assumes "\<forall>p \<in> set ps. proper p"
  shows "parse_parts (CHR ''/'' # sep_join ps) = (''/'', ''/'' # ps)"
proof -
  from sep_join_head[OF assms]
  have strip: "lstrip (CHR ''/'') (CHR ''/'' # sep_join ps) = sep_join ps"
    by (cases "sep_join ps") (auto simp: lstrip_def)
  have "splitroot (CHR ''/'' # sep_join ps) = (''/'', sep_join ps)"
    by (simp add: splitroot_def strip Let_def)
  then show ?thesis
    using rel_components[OF assms] by (simp add: parse_parts_def Let_def)
qed

lemma parse_parts_relative:
  assumes "\<forall>p \<in> set ps. proper p" and "ps \<noteq> []"
  shows "parse_parts (sep_join ps) = ([], ps)"
proof -
  from sep_join_nonempty[OF assms(2,1)] sep_join_head[OF assms(1)]
  have ne: "sep_join ps \<noteq> []" and hd: "hd (sep_join ps) \<noteq> CHR ''/''" by auto
  then have "splitroot (sep_join ps) = ([], sep_join ps)" by (simp add: splitroot_def)
  then show ?thesis
    using rel_components[OF assms(1)] ne by (simp add: parse_parts_def Let_def)
qed

text \<open>
  C8, as the code has it. For a canonical base (the root \<^verbatim>\<open>/\<close>, or \<^verbatim>\<open>/\<close> followed by
  segments joined by \<^verbatim>\<open>/\<close>) and a canonical relative identity, the join is the base,
  \<^verbatim>\<open>/\<close> and the relative identity, except that the root base contributes its single
  \<^verbatim>\<open>/\<close> only. For a canonical absolute identity the join is that identity, whatever
  the base.
\<close>

theorem generate_actor_id_join:
  assumes "\<forall>p \<in> set bs. proper p" and "\<forall>p \<in> set rs. proper p"
  shows "(rs \<noteq> [] \<longrightarrow>
            generate_actor_id (CHR ''/'' # sep_join bs) (sep_join rs) =
              (if bs = [] then CHR ''/'' # sep_join rs
               else (CHR ''/'' # sep_join bs) @ ''/'' @ sep_join rs)) \<and>
         generate_actor_id B (CHR ''/'' # sep_join rs) = CHR ''/'' # sep_join rs"
proof (intro conjI impI)
  assume ne: "rs \<noteq> []"
  have "generate_actor_id (CHR ''/'' # sep_join bs) (sep_join rs) = CHR ''/'' # sep_join (bs @ rs)"
    by (simp add: generate_actor_id_def parse_parts_absolute[OF assms(1)]
        parse_parts_relative[OF assms(2) ne] join_parsed_parts_def path_str_def Let_def)
  then show "generate_actor_id (CHR ''/'' # sep_join bs) (sep_join rs) =
              (if bs = [] then CHR ''/'' # sep_join rs
               else (CHR ''/'' # sep_join bs) @ ''/'' @ sep_join rs)"
    using ne by (simp add: sep_join_append)
next
  obtain a ps where p: "parse_parts B = (a, ps)" by (cases "parse_parts B")
  show "generate_actor_id B (CHR ''/'' # sep_join rs) = CHR ''/'' # sep_join rs"
    by (simp add: generate_actor_id_def parse_parts_absolute[OF assms(2)] p
        join_parsed_parts_def path_str_def Let_def)
qed

theorem generate_actor_id_join_witness:
  "proper ''a'' \<and> proper ''b'' \<and>
   generate_actor_id ''/a'' ''b'' = ''/a/b'' \<and> generate_actor_id ''/a'' ''/b'' = ''/b''"
proof -
  have a: "\<forall>p \<in> set [''a'']. proper p" and b: "\<forall>p \<in> set [''b'']. proper p"
    by (simp_all add: proper_def)
  from generate_actor_id_join[OF a b, of "''/a''"] a b show ?thesis by simp
qed

text \<open>
  C8 as the claim states it fails at the root base: the join of \<^verbatim>\<open>/\<close> and
  \<^verbatim>\<open>actor\<close> is \<^verbatim>\<open>/actor\<close>, as \<^verbatim>\<open>test_create_actor_correct_id\<close> expects, and not the
  base, \<^verbatim>\<open>/\<close> and the relative identity.
\<close>

theorem generate_actor_id_root_counterexample:
  "generate_actor_id ''/'' ''actor'' = ''/actor'' \<and>
   generate_actor_id ''/'' ''actor'' \<noteq> ''/'' @ ''/'' @ ''actor''"
  by (simp add: generate_actor_id_def parse_parts_def splitroot_def lstrip_def
      join_parsed_parts_def path_str_def Let_def)


section \<open>Isolation by copy\<close>








































end
